theory Spec2Isabelle
  imports Complex_Main "HOL-Library.Log_Nat"
begin

section \<open>JavaScript strings\<close>

text \<open>
  Strings are lists of 8-bit characters. The engine only inspects ASCII digits and
  white space, so the code units beyond Latin-1 that a JavaScript string may hold play
  no role in any branch modelled here.
\<close>

definition isDigit :: "char \<Rightarrow> bool" where
  \<comment> \<open>the character class \<open>[0-9]\<close>\<close>
  "isDigit c = (c \<in> set ''0123456789'')"

definition digitsOnly :: "string \<Rightarrow> string" where
  \<comment> \<open>\<open>s.replace(/[^0-9]/g, '')\<close>\<close>
  "digitsOnly s = filter isDigit s"

definition isWhite :: "char \<Rightarrow> bool" where
  \<comment> \<open>white space and line terminators representable in 8 bits\<close>
  "isWhite c = (c \<in> {CHR 0x20, CHR 0x09, CHR 0x0A, CHR 0x0B, CHR 0x0C, CHR 0x0D, CHR 0xA0})"

definition trim :: "string \<Rightarrow> string" where
  \<comment> \<open>\<open>String.prototype.trim\<close>\<close>
  "trim s = rev (dropWhile isWhite (rev (dropWhile isWhite s)))"

definition startsWith :: "string \<Rightarrow> string \<Rightarrow> bool" where
  \<comment> \<open>\<open>s.startsWith(p)\<close>\<close>
  "startsWith s p = (take (length p) s = p)"

definition padStart :: "nat \<Rightarrow> char \<Rightarrow> string \<Rightarrow> string" where
  \<comment> \<open>\<open>s.padStart(n, c)\<close>: a target length not above the length of \<open>s\<close> leaves \<open>s\<close> as it is\<close>
  "padStart n c s = replicate (n - length s) c @ s"

definition digitVal :: "char \<Rightarrow> nat" where
  \<comment> \<open>\<open>parseInt(c)\<close> of one decimal digit\<close>
  "digitVal c = of_char c - 48"

section \<open>The ISBN-13 predicate\<close>

text \<open>
  \<^verbatim>\<open>
  const isIsbn = (barcode) => {
      const code = String(barcode).replace(/[^0-9]/g, '');
      if (code.length !== 13) return false;
      if (!code.startsWith('978') && !code.startsWith('979')) return false;
      let sum = 0;
      for (let i = 0; i < 12; i++) {
          const digit = parseInt(code[i]);
          sum += (i % 2 === 0) ? digit * 1 : digit * 3;
      }
      const checkDigit = (10 - (sum % 10)) % 10;
      return checkDigit === parseInt(code[12]);
  };
  \<close>
  The loop is the recursive function \<open>isbnLoop\<close>, started at \<open>i = 0\<close> with the sum 0.
\<close>

function isbnLoop :: "string \<Rightarrow> nat \<Rightarrow> nat \<Rightarrow> nat" where
  "isbnLoop code i sm =
     (if i < 12
      then isbnLoop code (i + 1)
             (sm + (if i mod 2 = 0 then digitVal (code ! i) * 1 else digitVal (code ! i) * 3))
      else sm)"
  by pat_completeness auto
termination
  by (relation "measure (\<lambda>(code, i, sm). 12 - i)") auto

declare isbnLoop.simps [simp del]

definition isIsbn :: "string \<Rightarrow> bool" where
  "isIsbn barcode =
     (let code = digitsOnly barcode in
      if length code \<noteq> 13 then False
      else if \<not> startsWith code ''978'' \<and> \<not> startsWith code ''979'' then False
      else
        let sm = isbnLoop code 0 0;
            checkDigit = (10 - (sm mod 10)) mod 10
        in checkDigit = digitVal (code ! 12))"

text \<open>The predicate as the specification words it, for comparison with \<open>isIsbn\<close>.\<close>

definition isbnWeightedSum :: "string \<Rightarrow> nat" where
  \<comment> \<open>digits at even 0-based positions times 1, at odd positions times 3, over the first 12\<close>
  "isbnWeightedSum d = (\<Sum>i<12. (if even i then 1 else 3) * digitVal (d ! i))"

definition isbn13_spec :: "string \<Rightarrow> bool" where
  "isbn13_spec s =
     (let d = digitsOnly s in
      length d = 13 \<and> (take 3 d = ''978'' \<or> take 3 d = ''979'') \<and>
      digitVal (d ! 12) = (10 - (isbnWeightedSum d mod 10)) mod 10)"

section \<open>Numbers and spreadsheet cells\<close>

text \<open>
  \<open>parseInt(s, 10)\<close> skips leading white space, reads an optional sign and the longest
  run of decimal digits, and yields \<open>NaN\<close> (here \<open>None\<close>) when there is no digit. The
  result is kept as an unbounded integer: the rounding of JavaScript numbers above
  \<open>2^53\<close> is outside the model. The general properties below never unfold
  \<open>libraryPrefix\<close>, so they hold for whatever string the prefix is.
\<close>

definition intOfDigits :: "string \<Rightarrow> int" where
  "intOfDigits ds = foldl (\<lambda>a c. 10 * a + int (digitVal c)) 0 ds"

definition parseInt :: "string \<Rightarrow> int option" where
  "parseInt s =
     (let t = dropWhile isWhite s;
          neg = (t \<noteq> [] \<and> hd t = CHR ''-'');
          u = (if t \<noteq> [] \<and> (hd t = CHR ''-'' \<or> hd t = CHR ''+'') then tl t else t);
          ds = takeWhile isDigit u
      in if ds = [] then None
         else Some (if neg then - intOfDigits ds else intOfDigits ds))"

function decimal :: "int \<Rightarrow> string" where
  \<comment> \<open>the decimal digits of a number that is not negative\<close>
  "decimal n =
     (if n < 10 then [''0123456789'' ! nat n]
      else decimal (n div 10) @ [''0123456789'' ! nat (n mod 10)])"
  by pat_completeness auto
termination
  by (relation "measure nat") auto

declare decimal.simps [simp del]

definition StringNum :: "int option \<Rightarrow> string" where
  \<comment> \<open>\<open>String(x)\<close> of an integral number or \<open>NaN\<close>\<close>
  "StringNum x =
     (case x of None \<Rightarrow> ''NaN''
      | Some n \<Rightarrow> if n < 0 then CHR ''-'' # decimal (- n) else decimal n)"

definition libraryPrefix :: "string \<Rightarrow> string" where
  \<comment> \<open>\<open>String(parseInt(code, 10) + 1000)\<close>\<close>
  "libraryPrefix code = StringNum (map_option (\<lambda>n. n + 1000) (parseInt code))"

text \<open>
  A cell of the uploaded sheet is a string or an integral number; a column absent from
  a row is \<open>None\<close> (\<open>undefined\<close>).
\<close>

datatype cell = CStr string | CNum int

definition StringCell :: "cell option \<Rightarrow> string" where
  \<comment> \<open>\<open>String(x)\<close>\<close>
  "StringCell x =
     (case x of None \<Rightarrow> ''undefined'' | Some (CStr s) \<Rightarrow> s | Some (CNum n) \<Rightarrow> StringNum (Some n))"

definition StringCellOrEmpty :: "cell option \<Rightarrow> string" where
  \<comment> \<open>\<open>String(x || '')\<close>: \<open>undefined\<close>, the empty string and 0 are falsy\<close>
  "StringCellOrEmpty x =
     (case x of None \<Rightarrow> [] | Some (CStr s) \<Rightarrow> s
      | Some (CNum n) \<Rightarrow> if n = 0 then [] else StringNum (Some n))"

section \<open>Data model\<close>

text \<open>One row of the catalog sheet (\<open>kohaData\<close>), with the columns the engine reads.\<close>

record kohaItem =
  barkod :: "cell option"
  eser_adi :: "cell option"
  materyalin_yeri_kodu :: "cell option"
  odunc_verilebilirlik_kodu :: "cell option"
  materyal_statusu_kodu :: "cell option"
  odunc_durumu :: "cell option"

text \<open>
  The entries of \<open>WARNING_DEFINITIONS\<close> by id; \<open>wrongLibrary\<close> carries the
  \<open>libraryName\<close> the scan result is extended with.
\<close>

datatype warning =
    invalidStructure | locationMismatch | notLoanable | notInCollection | onLoan
  | wrongLibrary string | deleted | autoCompletedNotFound | duplicate | isbnDetected

text \<open>
  A scan result. \<open>timestamp\<close> is the clock reading \<open>new Date()\<close> in milliseconds, which
  \<open>toISOString\<close> and \<open>new Date(...).getTime()\<close> carry unchanged.
\<close>

record scanResult =
  barcode :: string
  isValid :: bool
  warnings :: "warning list"
  data :: "kohaItem option"
  timestamp :: int

text \<open>
  The component state the engine reads and writes: \<open>scannedItems\<close> (most recent first),
  \<open>processedBarcodesRef.current\<close>, \<open>kohaData\<close> and \<open>kohaDataMap\<close>. Sounds, modals and
  \<open>lastScanned\<close> are presentation and are left out.
\<close>

record session =
  scannedItems :: "scanResult list"
  processedBarcodes :: "string set"
  kohaData :: "kohaItem list"
  kohaDataMap :: "string \<rightharpoonup> kohaItem"

record scope =
  selectedLibrary :: string
  selectedLocation :: string
  combinedLibraries :: "(string \<times> string) list"

datatype outcome = ignored | isbn | error "warning list" | success

section \<open>Classification: \<open>processBarcode\<close>\<close>

text \<open>
  Lines 1395 to 1408 of \<open>processBarcode\<close>: the three variables \<open>originalBarcode\<close>,
  \<open>normalizedBarcode\<close> and \<open>wasAutoCompleted\<close>.
  \<^verbatim>\<open>
  let originalBarcode = rawBarcode.replace(/[^0-9]/g, '');
  let normalizedBarcode = originalBarcode;
  let wasAutoCompleted = false;
  const expectedPrefix = String(parseInt(selectedLibrary, 10) + 1000);
  if (normalizedBarcode.length >= 13) normalizedBarcode = normalizedBarcode.slice(0, 12);
  if (normalizedBarcode.length < 12 && normalizedBarcode.length > 0) {
      wasAutoCompleted = true;
      normalizedBarcode = expectedPrefix + originalBarcode.padStart(12 - expectedPrefix.length, '0');
  }
  \<close>
\<close>

record normalized =
  originalBarcode :: string
  normalizedBarcode :: string
  wasAutoCompleted :: bool

definition normalize :: "string \<Rightarrow> string \<Rightarrow> normalized" where
  "normalize expectedPrefix rawBarcode =
     (let orig = digitsOnly rawBarcode;
          n1 = (if length orig \<ge> 13 then take 12 orig else orig)
      in if length n1 < 12 \<and> length n1 > 0
         then \<lparr>originalBarcode = orig,
               normalizedBarcode =
                 expectedPrefix @ padStart (12 - length expectedPrefix) (CHR ''0'') orig,
               wasAutoCompleted = True\<rparr>
         else \<lparr>originalBarcode = orig, normalizedBarcode = n1, wasAutoCompleted = False\<rparr>)"

definition fieldWarnings :: "scope \<Rightarrow> kohaItem \<Rightarrow> warning list" where
  \<comment> \<open>the four checks on a catalog record, in the order they are pushed\<close>
  "fieldWarnings sc itemData =
     (if selectedLocation sc \<noteq> [] \<and>
         StringCellOrEmpty (materyalin_yeri_kodu itemData) \<noteq> selectedLocation sc
      then [locationMismatch] else []) @
     (if StringCell (odunc_verilebilirlik_kodu itemData) \<notin> set [''0'', ''2'']
      then [notLoanable] else []) @
     (if StringCell (materyal_statusu_kodu itemData) \<noteq> ''0'' then [notInCollection] else []) @
     (if StringCell (odunc_durumu itemData) = ''1'' then [onLoan] else [])"

definition existingItemData :: "session \<Rightarrow> string \<Rightarrow> kohaItem option" where
  \<comment> \<open>\<open>scannedItems.find(item => item.barcode === nb)?.data || kohaDataMap.get(nb)\<close>\<close>
  "existingItemData st nb =
     (case find (\<lambda>item. barcode item = nb) (scannedItems st) of
        None \<Rightarrow> kohaDataMap st nb
      | Some item \<Rightarrow> (case data item of Some d \<Rightarrow> Some d | None \<Rightarrow> kohaDataMap st nb))"

definition structuralWarning :: "scope \<Rightarrow> string \<Rightarrow> warning" where
  \<comment> \<open>the loop over \<open>combinedLibraries.entries()\<close>, left at the first matching prefix\<close>
  "structuralWarning sc nb =
     (case find (\<lambda>(code, name). startsWith nb (libraryPrefix code)) (combinedLibraries sc) of
        Some (code, name) \<Rightarrow> wrongLibrary name
      | None \<Rightarrow> invalidStructure)"

text \<open>
  \<open>processBarcode(barcode, isBulk)\<close> as a function of the scope, the clock and the
  session, returning the outcome and the session after the call. \<open>isBulk\<close> only switches
  sounds and modals off and is not a parameter. The closure's \<open>scannedItems\<close> is read as
  the current list, as it is between two renders.
\<close>

definition processBarcode :: "scope \<Rightarrow> int \<Rightarrow> string \<Rightarrow> session \<Rightarrow> outcome \<times> session" where
  "processBarcode sc now barcode' st =
     (let rawBarcode = trim barcode' in
      if rawBarcode = [] \<or> selectedLibrary sc = [] then (ignored, st)
      else if isIsbn rawBarcode then (isbn, st)
      else
        let expectedPrefix = libraryPrefix (selectedLibrary sc);
            nz = normalize expectedPrefix rawBarcode;
            nb = normalizedBarcode nz
        in
        if nb \<in> processedBarcodes st then
          let result = \<lparr>barcode = nb, isValid = False, warnings = [duplicate],
                         data = existingItemData st nb, timestamp = now\<rparr>
          in (error [duplicate], st\<lparr>scannedItems := result # scannedItems st\<rparr>)
        else
          let st1 = st\<lparr>processedBarcodes := insert nb (processedBarcodes st)\<rparr> in
          if length nb = 12 \<and> \<not> startsWith nb expectedPrefix then
            let finalWarning = structuralWarning sc nb;
                result = \<lparr>barcode = originalBarcode nz, isValid = False,
                           warnings = [finalWarning], data = kohaDataMap st nb, timestamp = now\<rparr>
            in (error [finalWarning], st1\<lparr>scannedItems := result # scannedItems st\<rparr>)
          else
            let itemData = kohaDataMap st nb;
                ws = (case itemData of
                        Some d \<Rightarrow> fieldWarnings sc d
                      | None \<Rightarrow> [if wasAutoCompleted nz then autoCompletedNotFound else deleted]);
                result = \<lparr>barcode = nb, isValid = (length ws = 0), warnings = ws,
                           data = itemData, timestamp = now\<rparr>
            in (if length ws > 0 then error ws else success,
                st1\<lparr>scannedItems := result # scannedItems st\<rparr>))"

section \<open>Deleting scans\<close>

text \<open>
  The confirmed branch of \<open>handleDeleteItem(timestampToDelete)\<close>:
  \<^verbatim>\<open>
  const itemToDelete = currentItems.find(item => item.timestamp === timestampToDelete);
  if (!itemToDelete) return currentItems;
  barcodeToDelete = itemToDelete.barcode;
  const count = currentItems.filter(item => item.barcode === barcodeToDelete).length;
  isLastInstanceOfBarcode = count === 1;
  const newItems = currentItems.filter(item => item.timestamp !== timestampToDelete);
  if (isLastInstanceOfBarcode) processedBarcodesRef.current.delete(barcodeToDelete);
  return newItems;
  \<close>
\<close>

definition handleDeleteItem :: "int \<Rightarrow> session \<Rightarrow> session" where
  "handleDeleteItem timestampToDelete st =
     (let currentItems = scannedItems st in
      case find (\<lambda>item. timestamp item = timestampToDelete) currentItems of
        None \<Rightarrow> st
      | Some itemToDelete \<Rightarrow>
          let barcodeToDelete = barcode itemToDelete;
              count = length (filter (\<lambda>item. barcode item = barcodeToDelete) currentItems);
              isLastInstanceOfBarcode = (count = 1);
              newItems = filter (\<lambda>item. timestamp item \<noteq> timestampToDelete) currentItems
          in st\<lparr>scannedItems := newItems,
                 processedBarcodes :=
                   (if isLastInstanceOfBarcode then processedBarcodes st - {barcodeToDelete}
                    else processedBarcodes st)\<rparr>)"

definition handleClearAllScans :: "session \<Rightarrow> session" where
  \<comment> \<open>\<open>setScannedItems([]); processedBarcodesRef.current.clear()\<close>\<close>
  "handleClearAllScans st = st\<lparr>scannedItems := [], processedBarcodes := {}\<rparr>"

section \<open>Loading the catalog\<close>

text \<open>
  \<open>new Map(entries)\<close> keeps the keys in the order of their first insertion and, for a
  key given twice, the value given last.
\<close>

fun mapSet :: "('k \<times> 'v) list \<Rightarrow> 'k \<Rightarrow> 'v \<Rightarrow> ('k \<times> 'v) list" where
  "mapSet [] k v = [(k, v)]"
| "mapSet ((k', v') # m) k v = (if k' = k then (k, v) # m else (k', v') # mapSet m k v)"

definition newMap :: "('k \<times> 'v) list \<Rightarrow> ('k \<times> 'v) list" where
  "newMap entries = foldl (\<lambda>m (k, v). mapSet m k v) [] entries"

definition newSet :: "'a list \<Rightarrow> 'a list" where
  \<comment> \<open>\<open>new Set(xs)\<close>, spread in insertion order\<close>
  "newSet xs = foldl (\<lambda>s x. if x \<in> set s then s else s @ [x]) [] xs"

datatype loadError = MissingColumn

text \<open>
  \<open>handleExcelUpload\<close> from the parsed rows on (\<open>json\<close>):
  \<^verbatim>\<open>
  if (json.length === 0 || !json[0].hasOwnProperty('barkod'))
      throw new Error(...);   // the message says that the column 'barkod' was not found
  setKohaData(json);
  setKohaDataMap(new Map(json.map(item => [String(item.barkod), item])));
  \<close>
  The thrown error is caught in the same handler, which only reports it.
\<close>

definition handleExcelUpload :: "kohaItem list \<Rightarrow> session \<Rightarrow> loadError option \<times> session" where
  "handleExcelUpload json st =
     (case json of
        [] \<Rightarrow> (Some MissingColumn, st)
      | first # _ \<Rightarrow>
          if barkod first = None then (Some MissingColumn, st)
          else (None, st\<lparr>kohaData := json,
                         kohaDataMap :=
                           map_of (newMap (map (\<lambda>item. (StringCell (barkod item), item)) json))\<rparr>))"

section \<open>Summary and the missing report\<close>

text \<open>\<open>scanSpeed\<close> is a number or the string \<open>"\<infinity>"\<close>.\<close>

datatype speed = Rate int | Unbounded

record summary =
  totalScanned :: nat
  valid :: nat
  invalid :: nat
  notScannedCount :: nat
  scanSpeed :: speed

text \<open>
  A JavaScript number is an IEEE 754 double, and every arithmetic operation yields the
  double nearest to the exact result, a tie going to the even mantissa. \<open>toDouble\<close> is
  this rounding to 53 significant bits: for \<open>x\<close> other than 0 it scales \<open>|x|\<close> by a power
  of two into the interval from \<open>2^52\<close> up to \<open>2^53\<close>, rounds to an integer, and scales
  back. The exponent range of doubles (overflow, subnormal numbers) is not modelled; an
  array has fewer than \<open>2^32\<close> elements and a time stamp of a \<open>Date\<close> is at most
  \<open>8.64 * 10^15\<close> in magnitude, so no quotient below leaves the range of normal doubles.
\<close>

definition floorLog2 :: "rat \<Rightarrow> int" where
  \<comment> \<open>for positive \<open>x\<close>, the \<open>k\<close> with \<open>2^k \<le> x < 2^(k+1)\<close>\<close>
  "floorLog2 x =
     (let k = bitlen (fst (quotient_of x)) - bitlen (snd (quotient_of x))
      in if 2 powi k \<le> x then k else k - 1)"

definition roundHalfEven :: "rat \<Rightarrow> int" where
  "roundHalfEven m =
     (let f = \<lfloor>m\<rfloor>; r = m - of_int f
      in if r < 1 / 2 then f else if r > 1 / 2 then f + 1 else if even f then f else f + 1)"

definition toDouble :: "rat \<Rightarrow> rat" where
  "toDouble x =
     (if x = 0 then 0
      else
        let e = floorLog2 \<bar>x\<bar> - 52;
            m = roundHalfEven (\<bar>x\<bar> / 2 powi e)
        in sgn x * of_int m * 2 powi e)"

text \<open>
  \<^verbatim>\<open>
  let scanSpeed = 0;
  if (scannedItems.length > 1) {
      const firstScanTime = new Date(scannedItems[scannedItems.length - 1].timestamp).getTime();
      const lastScanTime = new Date(scannedItems[0].timestamp).getTime();
      const durationMinutes = (lastScanTime - firstScanTime) / (1000 * 60);
      scanSpeed = durationMinutes > 0 ? Math.round(scannedItems.length / durationMinutes) : "\<infinity>";
  }
  \<close>
  The subtraction and the two divisions are rounded to doubles; \<open>1000 * 60\<close> and the
  length are exact. \<open>Math.round\<close> yields the nearest integer, a half going up, as \<open>round\<close>
  does.
\<close>

definition computeScanSpeed :: "scanResult list \<Rightarrow> speed" where
  "computeScanSpeed items =
     (if length items > 1 then
        let firstScanTime = timestamp (items ! (length items - 1));
            lastScanTime = timestamp (items ! 0);
            durationMinutes =
              toDouble (toDouble (of_int (lastScanTime - firstScanTime)) / (1000 * 60))
        in if durationMinutes > 0
           then Rate (round (toDouble (of_nat (length items) / durationMinutes)))
           else Unbounded
      else Rate 0)"

definition isActive :: "kohaItem \<Rightarrow> bool" where
  \<comment> \<open>\<open>String(item['materyal_statusu_kodu']) === '0'\<close>\<close>
  "isActive item = (StringCell (materyal_statusu_kodu item) = ''0'')"

definition hasActiveData :: "scanResult \<Rightarrow> bool" where
  \<comment> \<open>\<open>item.data && String(item.data['materyal_statusu_kodu']) === '0'\<close>\<close>
  "hasActiveData item = (case data item of None \<Rightarrow> False | Some d \<Rightarrow> isActive d)"

text \<open>
  The counts of \<open>summaryData\<close> (the chart series are not modelled):
  \<^verbatim>\<open>
  if (scannedItems.length === 0 && kohaData.length === 0) return null;
  const activeKohaData = kohaData.filter(item => String(item['materyal_statusu_kodu']) === '0');
  const activeScannedItems = scannedItems.filter(item =>
      item.data && String(item.data['materyal_statusu_kodu']) === '0');
  const uniqueActiveScannedItems =
      [...new Map(activeScannedItems.map(item => [item.barcode, item])).values()];
  const valid = uniqueActiveScannedItems.filter(item => item.isValid).length;
  const invalid = uniqueActiveScannedItems.length - valid;
  const activeKohaBarcodes = new Set(activeKohaData.map(item => String(item.barkod)));
  const activeScannedBarcodes = new Set(uniqueActiveScannedItems.map(item => item.barcode));
  const notScannedCount = [...activeKohaBarcodes].filter(b => !activeScannedBarcodes.has(b)).length;
  \<close>
\<close>

definition uniqueActiveScannedItems :: "scanResult list \<Rightarrow> scanResult list" where
  "uniqueActiveScannedItems items =
     map snd (newMap (map (\<lambda>item. (barcode item, item)) (filter hasActiveData items)))"

definition summaryData :: "session \<Rightarrow> summary option" where
  "summaryData st =
     (if length (scannedItems st) = 0 \<and> length (kohaData st) = 0 then None
      else
        let activeKohaData = filter isActive (kohaData st);
            uniqueItems = uniqueActiveScannedItems (scannedItems st);
            validCount = length (filter isValid uniqueItems);
            activeKohaBarcodes = newSet (map (\<lambda>item. StringCell (barkod item)) activeKohaData);
            activeScannedBarcodes = newSet (map barcode uniqueItems)
        in Some \<lparr>totalScanned = length (scannedItems st),
                  valid = validCount,
                  invalid = length uniqueItems - validCount,
                  notScannedCount =
                    length (filter (\<lambda>b. b \<notin> set activeScannedBarcodes) activeKohaBarcodes),
                  scanSpeed = computeScanSpeed (scannedItems st)\<rparr>)"

text \<open>
  The rows of the report \<open>missing\<close> of \<open>POST_SCAN_REPORTS_CONFIG\<close>:
  \<^verbatim>\<open>
  const scannedBarcodes = new Set(scannedItems
      .filter(i => !i.warnings.some(w => w.id === 'duplicate')).map(i => i.barcode));
  const missingItems = kohaData.filter(i =>
      String(i['materyal_statusu_kodu']) === '0' && !scannedBarcodes.has(String(i.barkod)));
  \<close>
\<close>

definition nonDuplicateBarcodes :: "scanResult list \<Rightarrow> string set" where
  "nonDuplicateBarcodes items =
     set (map barcode (filter (\<lambda>i. duplicate \<notin> set (warnings i)) items))"

definition missingItems :: "session \<Rightarrow> kohaItem list" where
  "missingItems st =
     filter (\<lambda>i. isActive i \<and> StringCell (barkod i) \<notin> nonDuplicateBarcodes (scannedItems st))
       (kohaData st)"

section \<open>The worker\<close>

text \<open>
  \<open>public/worker.js\<close> keeps \<open>kohaDataMap\<close>, \<open>combinedLibraries\<close> and
  \<open>processedBarcodes\<close> as globals and answers each \<open>PROCESS_BARCODE\<close> message with the
  result of \<open>processBarcodeLogic\<close>.
\<close>

record worker =
  workerKohaDataMap :: "string \<rightharpoonup> kohaItem"
  workerCombinedLibraries :: "(string \<times> string) list"
  workerProcessedBarcodes :: "string set"

definition processBarcodeLogic ::
    "worker \<Rightarrow> int \<Rightarrow> string \<Rightarrow> string \<Rightarrow> string \<Rightarrow> scanResult option" where
  "processBarcodeLogic w now barcode' selLibrary selLocation =
     (let rawBarcode = trim barcode';
          sc = \<lparr>selectedLibrary = selLibrary, selectedLocation = selLocation,
                combinedLibraries = workerCombinedLibraries w\<rparr>
      in
      if rawBarcode = [] \<or> selLibrary = [] then None
      else if isIsbn rawBarcode then
        Some \<lparr>barcode = rawBarcode, isValid = False, warnings = [isbnDetected],
              data = None, timestamp = now\<rparr>
      else
        let expectedPrefix = libraryPrefix selLibrary;
            nz = normalize expectedPrefix rawBarcode;
            nb = normalizedBarcode nz
        in
        if nb \<in> workerProcessedBarcodes w then
          Some \<lparr>barcode = nb, isValid = False, warnings = [duplicate],
                data = workerKohaDataMap w nb, timestamp = now\<rparr>
        else if length nb = 12 \<and> \<not> startsWith nb expectedPrefix then
          Some \<lparr>barcode = originalBarcode nz, isValid = False,
                warnings = [structuralWarning sc nb],
                data = workerKohaDataMap w nb, timestamp = now\<rparr>
        else
          let itemData = workerKohaDataMap w nb;
              ws = (case itemData of
                      Some d \<Rightarrow> fieldWarnings sc d
                    | None \<Rightarrow> [if wasAutoCompleted nz then autoCompletedNotFound else deleted])
          in Some \<lparr>barcode = nb, isValid = (length ws = 0), warnings = ws,
                   data = itemData, timestamp = now\<rparr>)"

text \<open>
  \<^verbatim>\<open>
  function processSingleBarcode(payload) {
      const result = processBarcodeLogic(payload);
      if(result) {
        processedBarcodes.add(result.barcode);
        self.postMessage({ type: 'BARCODE_PROCESSED', payload: result });
      }
  }
  \<close>
  The function returns the posted result, if any, and the worker after the call.
\<close>

definition processSingleBarcode ::
    "int \<Rightarrow> string \<Rightarrow> string \<Rightarrow> string \<Rightarrow> worker \<Rightarrow> scanResult option \<times> worker" where
  "processSingleBarcode now barcode' selLibrary selLocation w =
     (case processBarcodeLogic w now barcode' selLibrary selLocation of
        None \<Rightarrow> (None, w)
      | Some result \<Rightarrow>
          (Some result,
           w\<lparr>workerProcessedBarcodes := insert (barcode result) (workerProcessedBarcodes w)\<rparr>))"

section \<open>Sessions as sequences of operations\<close>

datatype action = Scan scope int string | Delete int | ClearAll

fun step :: "action \<Rightarrow> session \<Rightarrow> session" where
  "step (Scan sc now raw) st = snd (processBarcode sc now raw st)"
| "step (Delete ts) st = handleDeleteItem ts st"
| "step ClearAll st = handleClearAllScans st"

definition run :: "action list \<Rightarrow> session \<Rightarrow> session" where
  "run acts st = foldl (\<lambda>s a. step a s) st acts"

definition newSession :: "kohaItem list \<Rightarrow> session" where
  \<comment> \<open>an empty ledger over a loaded catalog\<close>
  "newSession json =
     \<lparr>scannedItems = [], processedBarcodes = {}, kohaData = json,
      kohaDataMap = map_of (newMap (map (\<lambda>item. (StringCell (barkod item), item)) json))\<rparr>"

text \<open>
  A scan is a truncated rejection when its digit string has 13 or more digits and its
  first 12 digits are new and fail the structural check: the ledger then holds the
  untruncated digits while the seen set holds the first 12.
\<close>

definition truncatedRejection :: "scope \<Rightarrow> string \<Rightarrow> session \<Rightarrow> bool" where
  "truncatedRejection sc raw st =
     (let rawBarcode = trim raw;
          expectedPrefix = libraryPrefix (selectedLibrary sc);
          nb = normalizedBarcode (normalize expectedPrefix rawBarcode)
      in rawBarcode \<noteq> [] \<and> selectedLibrary sc \<noteq> [] \<and> \<not> isIsbn rawBarcode \<and>
         nb \<notin> processedBarcodes st \<and> length nb = 12 \<and> \<not> startsWith nb expectedPrefix \<and>
         length (digitsOnly rawBarcode) \<ge> 13)"

text \<open>
  A sequence of operations is admissible from a session when every scan is stamped
  with a time not yet in the ledger and none is a truncated rejection.
\<close>

fun admissible :: "action list \<Rightarrow> session \<Rightarrow> bool" where
  "admissible [] st = True"
| "admissible (Scan sc now raw # acts) st =
     (now \<notin> set (map timestamp (scannedItems st)) \<and> \<not> truncatedRejection sc raw st \<and>
      admissible acts (step (Scan sc now raw) st))"
| "admissible (a # acts) st = admissible acts (step a st)"

text \<open>
  The ledger invariant the deletion handler maintains: the seen set is the set of the
  identifiers of all scan results in the ledger, and no two results share a time stamp.
\<close>

definition ledgerInvariant :: "session \<Rightarrow> bool" where
  "ledgerInvariant st =
     (processedBarcodes st = set (map barcode (scannedItems st)) \<and>
      distinct (map timestamp (scannedItems st)))"

section \<open>Example data\<close>

definition exampleItem :: kohaItem where
  "exampleItem =
     \<lparr>barkod = Some (CNum 101200012345), eser_adi = Some (CStr ''Nutuk''),
      materyalin_yeri_kodu = Some (CStr ''YB''), odunc_verilebilirlik_kodu = Some (CNum 0),
      materyal_statusu_kodu = Some (CNum 0), odunc_durumu = Some (CNum 0)\<rparr>"

definition exampleScope :: scope where
  "exampleScope =
     \<lparr>selectedLibrary = ''12'', selectedLocation = ''YB'',
      combinedLibraries = [(''12'', ''ADANA IL HALK KUTUPHANESI''), (''8999'', ''MERKEZ'')]\<rparr>"

definition foreignItem :: kohaItem where
  \<comment> \<open>a withdrawn, on-loan record of another library\<close>
  "foreignItem =
     \<lparr>barkod = Some (CStr ''999988887777''), eser_adi = Some (CStr ''Safahat''),
      materyalin_yeri_kodu = Some (CStr ''DB''), odunc_verilebilirlik_kodu = Some (CNum 3),
      materyal_statusu_kodu = Some (CNum 1), odunc_durumu = Some (CNum 1)\<rparr>"

definition exampleSession :: session where
  "exampleSession = newSession [exampleItem, foreignItem]"

definition exampleWorker :: worker where
  \<comment> \<open>a worker over the same catalog and libraries, with nothing processed yet\<close>
  "exampleWorker =
     \<lparr>workerKohaDataMap = kohaDataMap exampleSession,
      workerCombinedLibraries = combinedLibraries exampleScope,
      workerProcessedBarcodes = {}\<rparr>"

definition singleScan :: "action list" where
  "singleScan = [Scan exampleScope 1 ''101200012345'']"

definition threeScans :: "action list" where
  \<comment> \<open>three scans within 1.6 seconds\<close>
  "threeScans =
     [Scan exampleScope 1000 ''101200012345'', Scan exampleScope 1800 ''55'',
      Scan exampleScope 2600 ''999988887777'']"

definition rescanThenDeleteFirst :: "action list" where
  \<comment> \<open>scan an item, scan it again, delete the first of the two results\<close>
  "rescanThenDeleteFirst =
     [Scan exampleScope 1 ''101200012345'', Scan exampleScope 2 ''101200012345'', Delete 1]"

section \<open>Properties\<close>

lemma isbnLoop_sum:
  "i \<le> 12 \<Longrightarrow>
   isbnLoop code i acc =
     acc + (\<Sum>k = i..<12. if k mod 2 = 0 then digitVal (code ! k) * 1 else digitVal (code ! k) * 3)"
proof (induction code i acc rule: isbnLoop.induct)
  case (1 code i sm)
  let ?w = "\<lambda>k. if k mod 2 = 0 then digitVal (code ! k) * 1 else digitVal (code ! k) * 3"
  show ?case
  proof (cases "i < 12")
    case True
    have "isbnLoop code i sm = isbnLoop code (i + 1) (sm + ?w i)"
      using True by (subst isbnLoop.simps) simp
    also have "\<dots> = sm + ?w i + (\<Sum>k = i + 1..<12. ?w k)"
      using True by (intro "1.IH") simp_all
    also have "\<dots> = sm + (\<Sum>k = i..<12. ?w k)"
      using True by (subst (2) sum.atLeast_Suc_lessThan) simp_all
    finally show ?thesis .
  next
    case False
    with "1.prems" have "i = 12" by simp
    then show ?thesis by (subst isbnLoop.simps) simp
  qed
qed

lemma isbnLoop_weighted: "isbnLoop code 0 0 = isbnWeightedSum code"
proof -
  have "isbnLoop code 0 0 =
      (\<Sum>k = 0..<12. if k mod 2 = 0 then digitVal (code ! k) * 1 else digitVal (code ! k) * 3)"
    using isbnLoop_sum [of 0 code 0] by simp
  also have "\<dots> = isbnWeightedSum code"
    unfolding isbnWeightedSum_def lessThan_atLeast0
    by (rule sum.cong) (simp_all add: even_iff_mod_2_eq_zero)
  finally show ?thesis .
qed

lemma startsWith_three: "length p = 3 \<Longrightarrow> startsWith s p = (take 3 s = p)"
  by (simp add: startsWith_def)

text \<open>
  C6: \<open>isIsbn\<close> accepts a string exactly when its digit-stripped form has 13 digits,
  starts with 978 or 979, and its 13th digit equals \<open>(10 - (S mod 10)) mod 10\<close> for the
  weighted sum \<open>S\<close> of the first 12 digits (weight 1 at even 0-based positions, 3 at odd
  ones); every other string is rejected.
\<close>

theorem C6_isIsbn_iff_spec: "isIsbn s = isbn13_spec s"
proof -
  have p: "startsWith d ''978'' = (take 3 d = ''978'')"
    "startsWith d ''979'' = (take 3 d = ''979'')" for d
    by (simp_all add: startsWith_three)
  show ?thesis
    unfolding isIsbn_def isbn13_spec_def Let_def p isbnLoop_weighted by auto
qed

theorem C6_isIsbn_witness:
  "isIsbn ''978-0-13-419044-0'' \<and> isbn13_spec ''978-0-13-419044-0'' \<and>
   \<not> isIsbn ''9780134190441'' \<and> \<not> isbn13_spec ''9780134190441''"
  using C6_isIsbn_iff_spec [of "''978-0-13-419044-0''"] C6_isIsbn_iff_spec [of "''9780134190441''"]
  by (simp add: isbn13_spec_def isbnWeightedSum_def digitsOnly_def isDigit_def digitVal_def
      Let_def lessThan_nat_numeral lessThan_Suc)

subsection \<open>Normalization\<close>

lemma isDigit_not_isWhite: "isWhite c \<Longrightarrow> \<not> isDigit c"
  by (auto simp: isWhite_def isDigit_def)

lemma filter_dropWhile_disjoint:
  "(\<And>x. Q x \<Longrightarrow> \<not> P x) \<Longrightarrow> filter P (dropWhile Q xs) = filter P xs"
  by (induction xs) auto

lemma digitsOnly_trim: "digitsOnly (trim s) = digitsOnly s"
  by (simp add: digitsOnly_def trim_def filter_dropWhile_disjoint isDigit_not_isWhite
      flip: rev_filter)

lemma digits_trim_nonempty: "digitsOnly s \<noteq> [] \<Longrightarrow> trim s \<noteq> []"
  using digitsOnly_trim [of s] by (auto simp: digitsOnly_def)

lemma isIsbn_length: "isIsbn s \<Longrightarrow> length (digitsOnly s) = 13"
  by (simp add: isIsbn_def Let_def split: if_splits)

lemma startsWith_append: "startsWith (p @ s) p"
  by (simp add: startsWith_def)

lemma normalize_autoComplete:
  "0 < length (digitsOnly raw) \<Longrightarrow> length (digitsOnly raw) < 12 \<Longrightarrow>
   normalize p raw =
     \<lparr>originalBarcode = digitsOnly raw,
      normalizedBarcode = p @ padStart (12 - length p) (CHR ''0'') (digitsOnly raw),
      wasAutoCompleted = True\<rparr>"
  by (simp add: normalize_def Let_def)

text \<open>
  C5: a raw input whose digit-stripped form has between 1 and 11 digits is never an
  ISBN, is recorded as auto-completed, and normalizes to
  \<open>expectedPrefix + digits.padStart(12 - expectedPrefix.length, '0')\<close>, which is also the
  identifier \<open>processBarcode\<close> stores; with library code 12 the prefix is 1012 and the
  digits 55 normalize to 101200000055.
\<close>

theorem C5_autoCompletion:
  assumes "0 < length (digitsOnly raw)" and "length (digitsOnly raw) < 12"
  shows "\<not> isIsbn (trim raw) \<and>
         normalize expectedPrefix (trim raw) =
           \<lparr>originalBarcode = digitsOnly raw,
            normalizedBarcode =
              expectedPrefix @ padStart (12 - length expectedPrefix) (CHR ''0'') (digitsOnly raw),
            wasAutoCompleted = True\<rparr> \<and>
         (selectedLibrary sc \<noteq> [] \<longrightarrow>
            barcode (hd (scannedItems (snd (processBarcode sc now raw st)))) =
              libraryPrefix (selectedLibrary sc) @
                padStart (12 - length (libraryPrefix (selectedLibrary sc))) (CHR ''0'')
                  (digitsOnly raw)) \<and>
         libraryPrefix ''12'' = ''1012'' \<and>
         normalize (libraryPrefix ''12'') ''55'' =
           \<lparr>originalBarcode = ''55'', normalizedBarcode = ''101200000055'',
            wasAutoCompleted = True\<rparr>"
proof -
  have d: "digitsOnly (trim raw) = digitsOnly raw" by (rule digitsOnly_trim)
  have nisbn: "\<not> isIsbn (trim raw)"
    using assms isIsbn_length [of "trim raw"] by (auto simp: d)
  have nz: "normalize p (trim raw) =
      \<lparr>originalBarcode = digitsOnly raw,
       normalizedBarcode = p @ padStart (12 - length p) (CHR ''0'') (digitsOnly raw),
       wasAutoCompleted = True\<rparr>" for p
    using normalize_autoComplete [of "trim raw" p] assms by (simp add: d)
  have ne: "trim raw \<noteq> []"
    using assms digits_trim_nonempty [of raw] by auto
  have pb: "barcode (hd (scannedItems (snd (processBarcode sc now raw st)))) =
      libraryPrefix (selectedLibrary sc) @
        padStart (12 - length (libraryPrefix (selectedLibrary sc))) (CHR ''0'') (digitsOnly raw)"
    if "selectedLibrary sc \<noteq> []"
    using that ne nisbn
    by (simp add: processBarcode_def Let_def nz startsWith_append split: option.splits)
  have p12: "libraryPrefix ''12'' = ''1012''" by code_simp
  have ex: "normalize (libraryPrefix ''12'') ''55'' =
      \<lparr>originalBarcode = ''55'', normalizedBarcode = ''101200000055'', wasAutoCompleted = True\<rparr>"
    by code_simp
  show ?thesis using nisbn nz pb p12 ex by blast
qed

theorem C5_autoCompletion_witness:
  "0 < length (digitsOnly '' 55 '') \<and> length (digitsOnly '' 55 '') < 12 \<and>
   normalizedBarcode (normalize (libraryPrefix ''12'') (trim '' 55 '')) = ''101200000055'' \<and>
   barcode (hd (scannedItems (snd (processBarcode exampleScope 7 '' 55 '' exampleSession)))) =
     ''101200000055''"
proof -
  have h1: "0 < length (digitsOnly '' 55 '')" by code_simp
  have h2: "length (digitsOnly '' 55 '') < 12" by code_simp
  have e: "libraryPrefix ''12'' @
      padStart (12 - length (libraryPrefix ''12'')) (CHR ''0'') (digitsOnly '' 55 '') =
      ''101200000055''"
    by code_simp
  have sl: "selectedLibrary exampleScope = ''12''" by (simp add: exampleScope_def)
  note inst = C5_autoCompletion [OF h1 h2, of "libraryPrefix ''12''" exampleScope 7 exampleSession,
      unfolded sl e]
  have "normalizedBarcode (normalize (libraryPrefix ''12'') (trim '' 55 '')) = ''101200000055''"
    by (simp only: inst [THEN conjunct2, THEN conjunct1] normalized.simps)
  moreover have
    "barcode (hd (scannedItems (snd (processBarcode exampleScope 7 '' 55 '' exampleSession)))) =
     ''101200000055''"
    using inst [THEN conjunct2, THEN conjunct2, THEN conjunct1] by simp
  ultimately show ?thesis using h1 h2 by blast
qed

subsection \<open>The branches of \<open>processBarcode\<close>\<close>

lemma processBarcode_ignored:
  "trim raw = [] \<or> selectedLibrary sc = [] \<Longrightarrow> processBarcode sc now raw st = (ignored, st)"
  by (auto simp: processBarcode_def)

lemma processBarcode_isbn:
  "trim raw \<noteq> [] \<Longrightarrow> selectedLibrary sc \<noteq> [] \<Longrightarrow> isIsbn (trim raw) \<Longrightarrow>
   processBarcode sc now raw st = (isbn, st)"
  by (simp add: processBarcode_def)

lemma processBarcode_duplicate:
  assumes "trim raw \<noteq> []" and "selectedLibrary sc \<noteq> []" and "\<not> isIsbn (trim raw)"
    and "nb = normalizedBarcode (normalize (libraryPrefix (selectedLibrary sc)) (trim raw))"
    and "nb \<in> processedBarcodes st"
  shows "processBarcode sc now raw st =
           (error [duplicate],
            st\<lparr>scannedItems :=
                 \<lparr>barcode = nb, isValid = False, warnings = [duplicate],
                  data = existingItemData st nb, timestamp = now\<rparr> # scannedItems st\<rparr>)"
  using assms by (simp add: processBarcode_def Let_def)

lemma processBarcode_structural:
  assumes "trim raw \<noteq> []" and "selectedLibrary sc \<noteq> []" and "\<not> isIsbn (trim raw)"
    and "nz = normalize (libraryPrefix (selectedLibrary sc)) (trim raw)"
    and "normalizedBarcode nz \<notin> processedBarcodes st"
    and "length (normalizedBarcode nz) = 12"
    and "\<not> startsWith (normalizedBarcode nz) (libraryPrefix (selectedLibrary sc))"
  shows "processBarcode sc now raw st =
           (error [structuralWarning sc (normalizedBarcode nz)],
            st\<lparr>processedBarcodes := insert (normalizedBarcode nz) (processedBarcodes st),
                scannedItems :=
                 \<lparr>barcode = originalBarcode nz, isValid = False,
                  warnings = [structuralWarning sc (normalizedBarcode nz)],
                  data = kohaDataMap st (normalizedBarcode nz), timestamp = now\<rparr>
                 # scannedItems st\<rparr>)"
  using assms by (simp add: processBarcode_def Let_def)

lemma processBarcode_lookup:
  assumes "trim raw \<noteq> []" and "selectedLibrary sc \<noteq> []" and "\<not> isIsbn (trim raw)"
    and "nz = normalize (libraryPrefix (selectedLibrary sc)) (trim raw)"
    and "normalizedBarcode nz \<notin> processedBarcodes st"
    and "\<not> (length (normalizedBarcode nz) = 12 \<and>
            \<not> startsWith (normalizedBarcode nz) (libraryPrefix (selectedLibrary sc)))"
    and "ws = (case kohaDataMap st (normalizedBarcode nz) of
                 Some d \<Rightarrow> fieldWarnings sc d
               | None \<Rightarrow> [if wasAutoCompleted nz then autoCompletedNotFound else deleted])"
  shows "processBarcode sc now raw st =
           (if ws = [] then success else error ws,
            st\<lparr>processedBarcodes := insert (normalizedBarcode nz) (processedBarcodes st),
                scannedItems :=
                 \<lparr>barcode = normalizedBarcode nz, isValid = (ws = []), warnings = ws,
                  data = kohaDataMap st (normalizedBarcode nz), timestamp = now\<rparr>
                 # scannedItems st\<rparr>)"
  using assms by (auto simp: processBarcode_def Let_def)

lemma processBarcode_seen:
  assumes "trim raw \<noteq> []" and "selectedLibrary sc \<noteq> []" and "\<not> isIsbn (trim raw)"
  shows "normalizedBarcode (normalize (libraryPrefix (selectedLibrary sc)) (trim raw))
           \<in> processedBarcodes (snd (processBarcode sc now raw st))"
  using assms by (simp add: processBarcode_def Let_def)

lemma structuralWarning_none:
  "\<forall>(code, name) \<in> set (combinedLibraries sc). \<not> startsWith nb (libraryPrefix code) \<Longrightarrow>
   structuralWarning sc nb = invalidStructure"
proof -
  assume a: "\<forall>(code, name) \<in> set (combinedLibraries sc). \<not> startsWith nb (libraryPrefix code)"
  have "find (\<lambda>(code, name). startsWith nb (libraryPrefix code)) (combinedLibraries sc) = None"
    using a by (auto simp: find_None_iff)
  then show ?thesis by (simp add: structuralWarning_def)
qed

lemma find_first:
  "\<forall>x \<in> set pre. \<not> P x \<Longrightarrow> P y \<Longrightarrow> find P (pre @ y # post) = Some y"
  by (induction pre) auto

lemma structuralWarning_first:
  assumes "combinedLibraries sc = pre @ (code, name) # post"
    and "\<forall>(c, n) \<in> set pre. \<not> startsWith nb (libraryPrefix c)"
    and "startsWith nb (libraryPrefix code)"
  shows "structuralWarning sc nb = wrongLibrary name"
proof -
  have "find (\<lambda>(c, n). startsWith nb (libraryPrefix c)) (pre @ (code, name) # post)
      = Some (code, name)"
    using assms(2,3) by (intro find_first) auto
  then show ?thesis by (simp add: structuralWarning_def assms(1))
qed

lemma structuralWarning_cases:
  "structuralWarning sc nb = invalidStructure \<or> (\<exists>name. structuralWarning sc nb = wrongLibrary name)"
  by (auto simp: structuralWarning_def split: option.splits)

subsection \<open>Classification claims\<close>

text \<open>
  C1: when the normalized identifier of an input is already in the seen set,
  \<open>processBarcode\<close> adds exactly one scan result with warnings \<open>[duplicate]\<close> and
  \<open>isValid = false\<close>, whose reference is that of the first ledger entry with this
  identifier or else the catalog lookup, and changes nothing else (the seen set
  included); and a second scan of the same normalized identifier is such a duplicate,
  whatever catalog is loaded by then.
\<close>

theorem C1_duplicate_shortcircuit:
  assumes "trim raw \<noteq> []" and "\<not> isIsbn (trim raw)" and "selectedLibrary sc \<noteq> []"
    and "nb = normalizedBarcode (normalize (libraryPrefix (selectedLibrary sc)) (trim raw))"
  shows
    "(nb \<in> processedBarcodes st \<longrightarrow>
        processBarcode sc now raw st =
          (error [duplicate],
           st\<lparr>scannedItems :=
                \<lparr>barcode = nb, isValid = False, warnings = [duplicate],
                 data = existingItemData st nb, timestamp = now\<rparr> # scannedItems st\<rparr>) \<and>
        existingItemData st nb =
          (case find (\<lambda>item. barcode item = nb) (scannedItems st) of
             None \<Rightarrow> kohaDataMap st nb
           | Some item \<Rightarrow> (case data item of Some d \<Rightarrow> Some d | None \<Rightarrow> kohaDataMap st nb))) \<and>
     (trim raw2 \<noteq> [] \<and> \<not> isIsbn (trim raw2) \<and> selectedLibrary sc2 \<noteq> [] \<and>
      normalizedBarcode (normalize (libraryPrefix (selectedLibrary sc2)) (trim raw2)) = nb \<and>
      st1 = (snd (processBarcode sc now raw st))\<lparr>kohaData := kd, kohaDataMap := km\<rparr> \<longrightarrow>
        fst (processBarcode sc2 now2 raw2 st1) = error [duplicate] \<and>
        scannedItems (snd (processBarcode sc2 now2 raw2 st1)) =
          \<lparr>barcode = nb, isValid = False, warnings = [duplicate],
           data = existingItemData st1 nb, timestamp = now2\<rparr> # scannedItems st1 \<and>
        processedBarcodes (snd (processBarcode sc2 now2 raw2 st1)) = processedBarcodes st1)"
proof (intro conjI impI)
  assume "nb \<in> processedBarcodes st"
  then show "processBarcode sc now raw st =
      (error [duplicate],
       st\<lparr>scannedItems :=
            \<lparr>barcode = nb, isValid = False, warnings = [duplicate],
             data = existingItemData st nb, timestamp = now\<rparr> # scannedItems st\<rparr>)"
    using assms by (intro processBarcode_duplicate) simp_all
next
  show "existingItemData st nb =
      (case find (\<lambda>item. barcode item = nb) (scannedItems st) of
         None \<Rightarrow> kohaDataMap st nb
       | Some item \<Rightarrow> (case data item of Some d \<Rightarrow> Some d | None \<Rightarrow> kohaDataMap st nb))"
    by (simp add: existingItemData_def)
next
  assume a: "trim raw2 \<noteq> [] \<and> \<not> isIsbn (trim raw2) \<and> selectedLibrary sc2 \<noteq> [] \<and>
      normalizedBarcode (normalize (libraryPrefix (selectedLibrary sc2)) (trim raw2)) = nb \<and>
      st1 = (snd (processBarcode sc now raw st))\<lparr>kohaData := kd, kohaDataMap := km\<rparr>"
  have "nb \<in> processedBarcodes (snd (processBarcode sc now raw st))"
    using assms processBarcode_seen [of raw sc now st] by simp
  with a have seen: "nb \<in> processedBarcodes st1" by simp
  have second: "processBarcode sc2 now2 raw2 st1 =
      (error [duplicate],
       st1\<lparr>scannedItems :=
            \<lparr>barcode = nb, isValid = False, warnings = [duplicate],
             data = existingItemData st1 nb, timestamp = now2\<rparr> # scannedItems st1\<rparr>)"
    using a seen by (intro processBarcode_duplicate) simp_all
  show "fst (processBarcode sc2 now2 raw2 st1) = error [duplicate]"
    by (simp add: second)
  show "scannedItems (snd (processBarcode sc2 now2 raw2 st1)) =
      \<lparr>barcode = nb, isValid = False, warnings = [duplicate],
       data = existingItemData st1 nb, timestamp = now2\<rparr> # scannedItems st1"
    by (simp add: second)
  show "processedBarcodes (snd (processBarcode sc2 now2 raw2 st1)) = processedBarcodes st1"
    by (simp add: second)
qed

theorem C1_duplicate_shortcircuit_witness:
  "fst (processBarcode exampleScope 2 '' 1012-0001-2345''
         ((snd (processBarcode exampleScope 1 ''101200012345'' exampleSession))
            \<lparr>kohaData := [], kohaDataMap := Map.empty\<rparr>)) = error [duplicate] \<and>
   ''101200012345'' \<in> processedBarcodes (run [Scan exampleScope 1 ''101200012345''] exampleSession) \<and>
   fst (processBarcode exampleScope 2 ''101200012345''
         (run [Scan exampleScope 1 ''101200012345''] exampleSession)) = error [duplicate]"
proof -
  have h1: "trim ''101200012345'' \<noteq> []" by code_simp
  have h2: "\<not> isIsbn (trim ''101200012345'')" by code_simp
  have h3: "selectedLibrary exampleScope \<noteq> []" by code_simp
  have h4: "''101200012345'' =
      normalizedBarcode (normalize (libraryPrefix (selectedLibrary exampleScope)) (trim ''101200012345''))"
    by code_simp
  have g: "trim '' 1012-0001-2345'' \<noteq> [] \<and> \<not> isIsbn (trim '' 1012-0001-2345'') \<and>
      selectedLibrary exampleScope \<noteq> [] \<and>
      normalizedBarcode (normalize (libraryPrefix (selectedLibrary exampleScope))
        (trim '' 1012-0001-2345'')) = ''101200012345''"
    by code_simp
  have m: "''101200012345'' \<in>
      processedBarcodes (run [Scan exampleScope 1 ''101200012345''] exampleSession)"
    by code_simp
  note first = C1_duplicate_shortcircuit [OF h1 h2 h3 h4,
      where st = "run [Scan exampleScope 1 ''101200012345''] exampleSession" and now = 2,
      THEN conjunct1, rule_format, OF m, THEN conjunct1]
  note second = C1_duplicate_shortcircuit [OF h1 h2 h3 h4,
      where st = exampleSession and now = 1 and ?raw2.0 = "'' 1012-0001-2345''"
        and ?sc2.0 = exampleScope and kd = "[]" and km = Map.empty and ?now2.0 = 2
        and ?st1.0 = "(snd (processBarcode exampleScope 1 ''101200012345'' exampleSession))
            \<lparr>kohaData := [], kohaDataMap := Map.empty\<rparr>",
      THEN conjunct2, rule_format, THEN conjunct1]
  have "fst (processBarcode exampleScope 2 '' 1012-0001-2345''
         ((snd (processBarcode exampleScope 1 ''101200012345'' exampleSession))
            \<lparr>kohaData := [], kohaDataMap := Map.empty\<rparr>)) = error [duplicate]"
    using g by (intro second) simp
  then show ?thesis using first m by simp
qed

text \<open>
  C2: when the normalized identifier has exactly 12 characters and does not start with
  the selected library's prefix, \<open>processBarcode\<close> stores one scan result with
  \<open>isValid = false\<close> and exactly one warning, which is never one of the catalog field
  warnings, whatever record the catalog holds for the identifier. Unless the identifier
  was seen before (the warning is then \<open>duplicate\<close>), the warning is \<open>wrongLibrary\<close> naming
  the first registered library whose prefix \<open>String(parseInt(code, 10) + 1000)\<close> matches,
  and \<open>invalidStructure\<close> when none does.
\<close>

theorem C2_structural_rejection:
  assumes "trim raw \<noteq> []" and "\<not> isIsbn (trim raw)" and "selectedLibrary sc \<noteq> []"
    and "nz = normalize (libraryPrefix (selectedLibrary sc)) (trim raw)"
    and "nb = normalizedBarcode nz"
    and "length nb = 12"
    and "\<not> startsWith nb (libraryPrefix (selectedLibrary sc))"
  shows
    "\<exists>w e. fst (processBarcode sc now raw st) = error [w] \<and>
           scannedItems (snd (processBarcode sc now raw st)) = e # scannedItems st \<and>
           warnings e = [w] \<and> isValid e = False \<and>
           w \<notin> {locationMismatch, notLoanable, notInCollection, onLoan} \<and>
           (nb \<notin> processedBarcodes st \<longrightarrow>
              processBarcode sc now raw st =
                (error [w],
                 st\<lparr>processedBarcodes := insert nb (processedBarcodes st),
                     scannedItems :=
                       \<lparr>barcode = originalBarcode nz, isValid = False, warnings = [w],
                        data = kohaDataMap st nb, timestamp = now\<rparr> # scannedItems st\<rparr>) \<and>
              ((\<forall>(code, name) \<in> set (combinedLibraries sc).
                  \<not> startsWith nb (libraryPrefix code))
                 \<longrightarrow> w = invalidStructure) \<and>
              (\<forall>pre code name post.
                 combinedLibraries sc = pre @ (code, name) # post \<and>
                 (\<forall>(c, n) \<in> set pre. \<not> startsWith nb (libraryPrefix c)) \<and>
                 startsWith nb (libraryPrefix code)
                 \<longrightarrow> w = wrongLibrary name))"
proof (cases "nb \<in> processedBarcodes st")
  case True
  let ?e = "\<lparr>barcode = nb, isValid = False, warnings = [duplicate],
             data = existingItemData st nb, timestamp = now\<rparr>"
  have "processBarcode sc now raw st = (error [duplicate], st\<lparr>scannedItems := ?e # scannedItems st\<rparr>)"
    using assms True by (intro processBarcode_duplicate) simp_all
  then have "fst (processBarcode sc now raw st) = error [duplicate] \<and>
      scannedItems (snd (processBarcode sc now raw st)) = ?e # scannedItems st \<and>
      warnings ?e = [duplicate] \<and> isValid ?e = False \<and>
      duplicate \<notin> {locationMismatch, notLoanable, notInCollection, onLoan}"
    by simp
  with True show ?thesis by blast
next
  case False
  let ?w = "structuralWarning sc nb"
  let ?e = "\<lparr>barcode = originalBarcode nz, isValid = False, warnings = [?w],
             data = kohaDataMap st nb, timestamp = now\<rparr>"
  have result: "processBarcode sc now raw st =
      (error [?w],
       st\<lparr>processedBarcodes := insert nb (processedBarcodes st),
           scannedItems := ?e # scannedItems st\<rparr>)"
    using processBarcode_structural [of raw sc nz st now] assms False by simp
  then have stored: "fst (processBarcode sc now raw st) = error [?w] \<and>
      scannedItems (snd (processBarcode sc now raw st)) = ?e # scannedItems st \<and>
      warnings ?e = [?w] \<and> isValid ?e = False"
    by simp
  have kind: "?w \<notin> {locationMismatch, notLoanable, notInCollection, onLoan}"
    using structuralWarning_cases [of sc nb] by auto
  have none: "(\<forall>(code, name) \<in> set (combinedLibraries sc). \<not> startsWith nb (libraryPrefix code))
      \<longrightarrow> ?w = invalidStructure"
    using structuralWarning_none [of sc nb] by blast
  have first: "\<forall>pre code name post.
      combinedLibraries sc = pre @ (code, name) # post \<and>
      (\<forall>(c, n) \<in> set pre. \<not> startsWith nb (libraryPrefix c)) \<and>
      startsWith nb (libraryPrefix code)
      \<longrightarrow> ?w = wrongLibrary name"
    using structuralWarning_first [of sc _ _ _ _ nb] by blast
  show ?thesis
    using result stored kind none first by blast
qed

theorem C2_structural_rejection_witness:
  "kohaDataMap exampleSession ''999988887777'' = Some foreignItem \<and>
   fieldWarnings exampleScope foreignItem = [locationMismatch, notLoanable, notInCollection, onLoan] \<and>
   fst (processBarcode exampleScope 5 ''999988887777'' exampleSession) = error [wrongLibrary ''MERKEZ''] \<and>
   fst (processBarcode (exampleScope\<lparr>combinedLibraries := []\<rparr>) 5 ''999988887777'' exampleSession)
     = error [invalidStructure]"
proof -
  let ?nz = "normalize (libraryPrefix (selectedLibrary exampleScope)) (trim ''999988887777'')"
  have h1: "trim ''999988887777'' \<noteq> []" by code_simp
  have h2: "\<not> isIsbn (trim ''999988887777'')" by code_simp
  have h3: "selectedLibrary exampleScope \<noteq> []" by code_simp
  have h5: "''999988887777'' = normalizedBarcode ?nz" by code_simp
  have h6: "''999988887777'' \<notin> processedBarcodes exampleSession" by code_simp
  have h7: "length ''999988887777'' = 12" by simp
  have h8: "\<not> startsWith ''999988887777'' (libraryPrefix (selectedLibrary exampleScope))"
    by code_simp
  have libs: "combinedLibraries exampleScope =
      [(''12'', ''ADANA IL HALK KUTUPHANESI'')] @ (''8999'', ''MERKEZ'') # []"
    by (simp add: exampleScope_def)
  have pre: "\<forall>(c, n) \<in> set [(''12'', ''ADANA IL HALK KUTUPHANESI'')].
      \<not> startsWith ''999988887777'' (libraryPrefix c)"
    using h8 by (simp add: exampleScope_def)
  have hit: "startsWith ''999988887777'' (libraryPrefix ''8999'')" by code_simp
  from C2_structural_rejection [OF h1 h2 h3 refl h5 h7 h8, of 5 exampleSession] h6
  obtain w where
    w1: "fst (processBarcode exampleScope 5 ''999988887777'' exampleSession) = error [w]" and
    w2: "\<forall>pre code name post.
           combinedLibraries exampleScope = pre @ (code, name) # post \<and>
           (\<forall>(c, n) \<in> set pre. \<not> startsWith ''999988887777'' (libraryPrefix c)) \<and>
           startsWith ''999988887777'' (libraryPrefix code)
           \<longrightarrow> w = wrongLibrary name"
    by auto
  from w2 libs pre hit have "w = wrongLibrary ''MERKEZ''" by blast
  with w1 have a: "fst (processBarcode exampleScope 5 ''999988887777'' exampleSession)
      = error [wrongLibrary ''MERKEZ'']" by simp
  have b: "kohaDataMap exampleSession ''999988887777'' = Some foreignItem" by code_simp
  have c: "fieldWarnings exampleScope foreignItem =
      [locationMismatch, notLoanable, notInCollection, onLoan]" by code_simp
  have d: "fst (processBarcode (exampleScope\<lparr>combinedLibraries := []\<rparr>) 5 ''999988887777''
      exampleSession) = error [invalidStructure]" by code_simp
  show ?thesis using a b c d by simp
qed

lemma normalize_no_digits:
  "digitsOnly raw = [] \<Longrightarrow>
   normalize p raw = \<lparr>originalBarcode = [], normalizedBarcode = [], wasAutoCompleted = False\<rparr>"
  by (simp add: normalize_def)

text \<open>
  C10: a non-empty trimmed input without any digit is classified, under a selected
  library, with the empty string as its normalized identifier. If the empty string is
  not yet seen (and is no catalog key) the scan is stored with identifier \<open>""\<close> and
  exactly the warning \<open>deleted\<close>, and the empty string joins the seen set; every
  later input without digits is then a duplicate.
\<close>

theorem C10_no_digit_input:
  assumes "trim raw \<noteq> []" and "digitsOnly raw = []" and "selectedLibrary sc \<noteq> []"
  shows
    "normalize (libraryPrefix (selectedLibrary sc)) (trim raw) =
       \<lparr>originalBarcode = [], normalizedBarcode = [], wasAutoCompleted = False\<rparr> \<and>
     ([] \<notin> processedBarcodes st \<and> kohaDataMap st [] = None \<longrightarrow>
        processBarcode sc now raw st =
          (error [deleted],
           st\<lparr>processedBarcodes := insert [] (processedBarcodes st),
               scannedItems :=
                 \<lparr>barcode = [], isValid = False, warnings = [deleted], data = None,
                  timestamp = now\<rparr> # scannedItems st\<rparr>)) \<and>
     [] \<in> processedBarcodes (snd (processBarcode sc now raw st)) \<and>
     (trim raw2 \<noteq> [] \<and> digitsOnly raw2 = [] \<and> selectedLibrary sc2 \<noteq> [] \<longrightarrow>
        fst (processBarcode sc2 now2 raw2 (snd (processBarcode sc now raw st))) =
          error [duplicate])"
proof -
  have nd: "digitsOnly (trim r) = []" if "digitsOnly r = []" for r
    using that by (simp add: digitsOnly_trim)
  have nisbn: "\<not> isIsbn (trim r)" if "digitsOnly r = []" for r
    using isIsbn_length [of "trim r"] nd [OF that] by auto
  have nz: "normalize p (trim r) =
      \<lparr>originalBarcode = [], normalizedBarcode = [], wasAutoCompleted = False\<rparr>"
    if "digitsOnly r = []" for r p
    using nd [OF that] by (rule normalize_no_digits)
  have first: "processBarcode sc now raw st =
      (error [deleted],
       st\<lparr>processedBarcodes := insert [] (processedBarcodes st),
           scannedItems :=
             \<lparr>barcode = [], isValid = False, warnings = [deleted], data = None,
              timestamp = now\<rparr> # scannedItems st\<rparr>)"
    if "[] \<notin> processedBarcodes st \<and> kohaDataMap st [] = None"
    using processBarcode_lookup [of raw sc _ st _ now, OF assms(1) assms(3) nisbn [OF assms(2)] refl]
      that nz [OF assms(2)] by simp
  have seen: "[] \<in> processedBarcodes (snd (processBarcode sc now raw st))"
    using processBarcode_seen [of raw sc now st, OF assms(1) assms(3) nisbn [OF assms(2)]]
      nz [OF assms(2)] by simp
  have second: "fst (processBarcode sc2 now2 raw2 (snd (processBarcode sc now raw st))) =
      error [duplicate]"
    if "trim raw2 \<noteq> [] \<and> digitsOnly raw2 = [] \<and> selectedLibrary sc2 \<noteq> []"
  proof -
    from that have d2: "digitsOnly raw2 = []" by simp
    have "processBarcode sc2 now2 raw2 (snd (processBarcode sc now raw st)) =
        (error [duplicate],
         (snd (processBarcode sc now raw st))\<lparr>scannedItems :=
            \<lparr>barcode = [], isValid = False, warnings = [duplicate],
             data = existingItemData (snd (processBarcode sc now raw st)) [], timestamp = now2\<rparr>
            # scannedItems (snd (processBarcode sc now raw st))\<rparr>)"
      using that seen nisbn [OF d2] nz [OF d2]
      by (intro processBarcode_duplicate) simp_all
    then show ?thesis by simp
  qed
  show ?thesis
    using nz [OF assms(2)] first seen second by blast
qed

theorem C10_no_digit_input_witness:
  "processBarcode exampleScope 3 ''abc'' exampleSession =
     (error [deleted],
      exampleSession\<lparr>processedBarcodes := insert [] (processedBarcodes exampleSession),
        scannedItems :=
          \<lparr>barcode = [], isValid = False, warnings = [deleted], data = None, timestamp = 3\<rparr>
          # scannedItems exampleSession\<rparr>) \<and>
   fst (processBarcode exampleScope 4 ''x-y z''
          (snd (processBarcode exampleScope 3 ''abc'' exampleSession))) = error [duplicate]"
proof -
  have h1: "trim ''abc'' \<noteq> []" by code_simp
  have h2: "digitsOnly ''abc'' = []" by code_simp
  have h3: "selectedLibrary exampleScope \<noteq> []" by code_simp
  have p: "[] \<notin> processedBarcodes exampleSession \<and> kohaDataMap exampleSession [] = None"
    by code_simp
  have q: "trim ''x-y z'' \<noteq> [] \<and> digitsOnly ''x-y z'' = [] \<and> selectedLibrary exampleScope \<noteq> []"
    by code_simp
  note inst = C10_no_digit_input [OF h1 h2 h3, where st = exampleSession and now = 3
      and ?raw2.0 = "''x-y z''" and ?sc2.0 = exampleScope and ?now2.0 = 4]
  from inst p have a: "processBarcode exampleScope 3 ''abc'' exampleSession =
     (error [deleted],
      exampleSession\<lparr>processedBarcodes := insert [] (processedBarcodes exampleSession),
        scannedItems :=
          \<lparr>barcode = [], isValid = False, warnings = [deleted], data = None, timestamp = 3\<rparr>
          # scannedItems exampleSession\<rparr>)"
    by blast
  from inst q have b: "fst (processBarcode exampleScope 4 ''x-y z''
          (snd (processBarcode exampleScope 3 ''abc'' exampleSession))) = error [duplicate]"
    by blast
  show ?thesis using a b by (rule conjI)
qed

subsection \<open>The ledger invariant\<close>

lemma normalize_untruncated:
  assumes "length (digitsOnly r) < 13"
    and "length (normalizedBarcode (normalize p r)) = 12"
    and "\<not> startsWith (normalizedBarcode (normalize p r)) p"
  shows "originalBarcode (normalize p r) = normalizedBarcode (normalize p r)"
proof (cases "length (digitsOnly r) < 12 \<and> 0 < length (digitsOnly r)")
  case True
  then have "normalizedBarcode (normalize p r) =
      p @ padStart (12 - length p) (CHR ''0'') (digitsOnly r)"
    by (simp add: normalize_autoComplete)
  with assms(3) show ?thesis by (simp add: startsWith_append)
next
  case False
  with assms(1) show ?thesis by (auto simp: normalize_def Let_def)
qed

lemma ledgerInvariant_scan:
  assumes inv: "ledgerInvariant st"
    and fresh: "now \<notin> set (map timestamp (scannedItems st))"
    and ok: "\<not> truncatedRejection sc raw st"
  shows "ledgerInvariant (snd (processBarcode sc now raw st))"
proof (cases "trim raw = [] \<or> selectedLibrary sc = []")
  case True
  then show ?thesis using inv by (simp add: processBarcode_ignored)
next
  case False
  then have ne: "trim raw \<noteq> []" and lib: "selectedLibrary sc \<noteq> []" by simp_all
  show ?thesis
  proof (cases "isIsbn (trim raw)")
    case True
    then show ?thesis using inv ne lib by (simp add: processBarcode_isbn)
  next
    case nisbn: False
    define nz where "nz = normalize (libraryPrefix (selectedLibrary sc)) (trim raw)"
    show ?thesis
    proof (cases "normalizedBarcode nz \<in> processedBarcodes st")
      case True
      then show ?thesis
        using inv fresh processBarcode_duplicate [OF ne lib nisbn refl, of st now]
        by (auto simp: ledgerInvariant_def nz_def)
    next
      case new: False
      show ?thesis
      proof (cases "length (normalizedBarcode nz) = 12 \<and>
          \<not> startsWith (normalizedBarcode nz) (libraryPrefix (selectedLibrary sc))")
        case True
        with ok new ne lib nisbn have "length (digitsOnly (trim raw)) < 13"
          by (auto simp: truncatedRejection_def Let_def nz_def)
        with True have "originalBarcode nz = normalizedBarcode nz"
          unfolding nz_def by (intro normalize_untruncated) simp_all
        then show ?thesis
          using inv fresh True new
            processBarcode_structural [OF ne lib nisbn nz_def, of st now]
          by (auto simp: ledgerInvariant_def)
      next
        case False
        then show ?thesis
          using inv fresh new processBarcode_lookup [OF ne lib nisbn nz_def new _ refl, of now]
          by (auto simp: ledgerInvariant_def)
      qed
    qed
  qed
qed

lemma find_timestamp:
  "find (\<lambda>item. timestamp item = ts) items = Some e \<Longrightarrow> e \<in> set items \<and> timestamp e = ts"
  by (auto simp: find_Some_iff)

lemma find_timestamp_distinct:
  "distinct (map timestamp items) \<Longrightarrow> e \<in> set items \<Longrightarrow>
   find (\<lambda>item. timestamp item = timestamp e) items = Some e"
  by (induction items) (auto simp: image_iff)

lemma filter_timestamp_distinct:
  "distinct (map timestamp items) \<Longrightarrow> e \<in> set items \<Longrightarrow>
   set (filter (\<lambda>item. timestamp item \<noteq> timestamp e) items) = set items - {e}"
  by (auto simp: distinct_map inj_on_def)

lemma single_instance:
  assumes "distinct items" and "e \<in> set items"
  shows "(length (filter (\<lambda>item. barcode item = barcode e) items) = 1) =
         (\<forall>x \<in> set items. barcode x = barcode e \<longrightarrow> x = e)"
proof
  assume one: "length (filter (\<lambda>item. barcode item = barcode e) items) = 1"
  then obtain y where y: "filter (\<lambda>item. barcode item = barcode e) items = [y]"
    by (cases "filter (\<lambda>item. barcode item = barcode e) items") auto
  have "set (filter (\<lambda>item. barcode item = barcode e) items) = {y}"
    by (simp add: y)
  then have only: "x = y" if "x \<in> set items" "barcode x = barcode e" for x
    using that by auto
  from only [OF assms(2)] have "e = y" by simp
  with only show "\<forall>x \<in> set items. barcode x = barcode e \<longrightarrow> x = e" by simp
next
  assume all: "\<forall>x \<in> set items. barcode x = barcode e \<longrightarrow> x = e"
  have d: "distinct (filter (\<lambda>item. barcode item = barcode e) items)"
    using assms(1) by simp
  have "set (filter (\<lambda>item. barcode item = barcode e) items) = {e}"
    using all assms(2) by auto
  then have "card (set (filter (\<lambda>item. barcode item = barcode e) items)) = 1"
    by (simp only: card.empty card.insert finite.emptyI empty_iff) simp
  then show "length (filter (\<lambda>item. barcode item = barcode e) items) = 1"
    by (simp only: distinct_card [OF d])
qed

lemma handleDeleteItem_found:
  assumes "distinct (map timestamp (scannedItems st))" and "e \<in> set (scannedItems st)"
  shows "handleDeleteItem (timestamp e) st =
           st\<lparr>scannedItems := filter (\<lambda>item. timestamp item \<noteq> timestamp e) (scannedItems st),
              processedBarcodes :=
                (if length (filter (\<lambda>item. barcode item = barcode e) (scannedItems st)) = 1
                 then processedBarcodes st - {barcode e} else processedBarcodes st)\<rparr>"
  using find_timestamp_distinct [OF assms] by (simp add: handleDeleteItem_def Let_def)

lemma ledgerInvariant_delete:
  assumes inv: "ledgerInvariant st"
  shows "ledgerInvariant (handleDeleteItem ts st)"
proof (cases "find (\<lambda>item. timestamp item = ts) (scannedItems st)")
  case None
  then show ?thesis using inv by (simp add: handleDeleteItem_def)
next
  case (Some e)
  then have e: "e \<in> set (scannedItems st)" and ts: "ts = timestamp e"
    using find_timestamp by auto
  from inv have dts: "distinct (map timestamp (scannedItems st))"
    and seen: "processedBarcodes st = barcode ` set (scannedItems st)"
    by (simp_all add: ledgerInvariant_def)
  from dts have d: "distinct (scannedItems st)" by (simp add: distinct_map)
  let ?rest = "filter (\<lambda>item. timestamp item \<noteq> timestamp e) (scannedItems st)"
  have rest: "set ?rest = set (scannedItems st) - {e}"
    using dts e by (rule filter_timestamp_distinct)
  have dr: "distinct (map timestamp ?rest)"
    using dts by (simp add: distinct_map_filter)
  have img: "barcode ` set ?rest = barcode ` (set (scannedItems st) - {e})"
    by (simp only: rest)
  have "barcode ` set ?rest =
      (if length (filter (\<lambda>item. barcode item = barcode e) (scannedItems st)) = 1
       then processedBarcodes st - {barcode e} else processedBarcodes st)"
  proof (cases "length (filter (\<lambda>item. barcode item = barcode e) (scannedItems st)) = 1")
    case True
    then have "\<forall>x \<in> set (scannedItems st). barcode x = barcode e \<longrightarrow> x = e"
      using single_instance [OF d e] by simp
    then have "barcode ` (set (scannedItems st) - {e}) = barcode ` set (scannedItems st) - {barcode e}"
      using e by auto
    with True show ?thesis by (simp only: img seen if_True refl)
  next
    case False
    then obtain x where "x \<in> set (scannedItems st)" "barcode x = barcode e" "x \<noteq> e"
      using single_instance [OF d e] by auto
    then have "barcode ` (set (scannedItems st) - {e}) = barcode ` set (scannedItems st)"
    proof (intro equalityI subsetI)
      fix b assume "b \<in> barcode ` set (scannedItems st)"
      then obtain y where y: "y \<in> set (scannedItems st)" "b = barcode y" by auto
      show "b \<in> barcode ` (set (scannedItems st) - {e})"
      proof (cases "y = e")
        case True
        with y \<open>x \<in> set (scannedItems st)\<close> \<open>barcode x = barcode e\<close> \<open>x \<noteq> e\<close>
        have "x \<in> set (scannedItems st) - {e}" "b = barcode x" by simp_all
        then show ?thesis by blast
      next
        case False
        with y show ?thesis by blast
      qed
    qed auto
    with False show ?thesis by (simp only: img seen if_False refl)
  qed
  then have "processedBarcodes (handleDeleteItem ts st) =
      set (map barcode (scannedItems (handleDeleteItem ts st)))"
    unfolding ts handleDeleteItem_found [OF dts e] by (simp only: set_map) simp
  moreover have "distinct (map timestamp (scannedItems (handleDeleteItem ts st)))"
    unfolding ts handleDeleteItem_found [OF dts e] using dr by simp
  ultimately show ?thesis by (simp add: ledgerInvariant_def)
qed

lemma ledgerInvariant_clear: "ledgerInvariant (handleClearAllScans st)"
  by (simp add: ledgerInvariant_def handleClearAllScans_def)

lemma ledgerInvariant_run:
  "ledgerInvariant st \<Longrightarrow> admissible acts st \<Longrightarrow> ledgerInvariant (run acts st)"
proof (induction acts arbitrary: st)
  case Nil
  then show ?case by (simp add: run_def)
next
  case (Cons a acts)
  have "ledgerInvariant (step a st) \<and> admissible acts (step a st)"
  proof (cases a)
    case (Scan sc now raw)
    with Cons.prems show ?thesis by (simp add: ledgerInvariant_scan)
  next
    case (Delete ts)
    with Cons.prems show ?thesis by (simp add: ledgerInvariant_delete)
  next
    case ClearAll
    with Cons.prems show ?thesis by (simp add: ledgerInvariant_clear)
  qed
  then have "ledgerInvariant (run acts (step a st))" using Cons.IH by blast
  then show ?case by (simp add: run_def)
qed

text \<open>
  C3 as stated fails: after an item is scanned twice and the first of the two results
  is deleted, the ledger holds only the duplicate-warned result, yet the identifier is
  still in the seen set, while no result that is not duplicate-warned carries it.
\<close>

theorem C3_seen_counterexample:
  "processedBarcodes (run rescanThenDeleteFirst exampleSession) = {''101200012345''} \<and>
   nonDuplicateBarcodes (scannedItems (run rescanThenDeleteFirst exampleSession)) = {} \<and>
   processedBarcodes (run rescanThenDeleteFirst exampleSession) \<noteq>
     nonDuplicateBarcodes (scannedItems (run rescanThenDeleteFirst exampleSession))"
proof -
  have a: "processedBarcodes (run rescanThenDeleteFirst exampleSession) = {''101200012345''}"
    by code_simp
  have b: "nonDuplicateBarcodes (scannedItems (run rescanThenDeleteFirst exampleSession)) = {}"
    by code_simp
  show ?thesis unfolding a b by simp
qed

text \<open>
  C3, amended: at every state reached from an empty ledger by scans (each stamped with
  a time not yet in the ledger, none a structural rejection of an input of 13 or more
  digits), deletions of single results and clearing, the seen set equals the set of
  identifiers of all scan results in the ledger, duplicate-warned ones included; and
  deleting a result that is the only one with its identifier removes it from the ledger
  and its identifier from the seen set.
\<close>

theorem C3_seen_invariant:
  assumes "scannedItems st0 = []" and "processedBarcodes st0 = {}"
    and "admissible acts st0" and "st = run acts st0"
  shows
    "processedBarcodes st = set (map barcode (scannedItems st)) \<and>
     (\<forall>e \<in> set (scannedItems st).
        length (filter (\<lambda>item. barcode item = barcode e) (scannedItems st)) = 1 \<longrightarrow>
          e \<notin> set (scannedItems (handleDeleteItem (timestamp e) st)) \<and>
          barcode e \<notin> processedBarcodes (handleDeleteItem (timestamp e) st))"
proof -
  have "ledgerInvariant st0"
    using assms(1,2) by (simp add: ledgerInvariant_def)
  then have inv: "ledgerInvariant st"
    unfolding assms(4) using assms(3) by (rule ledgerInvariant_run)
  then have dts: "distinct (map timestamp (scannedItems st))"
    and seen: "processedBarcodes st = set (map barcode (scannedItems st))"
    by (simp_all add: ledgerInvariant_def)
  have evict: "e \<notin> set (scannedItems (handleDeleteItem (timestamp e) st)) \<and>
      barcode e \<notin> processedBarcodes (handleDeleteItem (timestamp e) st)"
    if e: "e \<in> set (scannedItems st)"
      and one: "length (filter (\<lambda>item. barcode item = barcode e) (scannedItems st)) = 1"
    for e
    unfolding handleDeleteItem_found [OF dts e] using one by simp
  show ?thesis using seen evict by blast
qed

theorem C3_seen_invariant_witness:
  "admissible rescanThenDeleteFirst exampleSession \<and>
   processedBarcodes (run rescanThenDeleteFirst exampleSession) =
     set (map barcode (scannedItems (run rescanThenDeleteFirst exampleSession))) \<and>
   map timestamp (scannedItems (run rescanThenDeleteFirst exampleSession)) = [2] \<and>
   ''101200012345'' \<notin>
     processedBarcodes (handleDeleteItem 2 (run rescanThenDeleteFirst exampleSession))"
proof -
  let ?st = "run rescanThenDeleteFirst exampleSession"
  have h1: "scannedItems exampleSession = []" by code_simp
  have h2: "processedBarcodes exampleSession = {}" by code_simp
  have h3: "admissible rescanThenDeleteFirst exampleSession" by code_simp
  have ts: "map timestamp (scannedItems ?st) = [2]" by code_simp
  have bs: "map barcode (scannedItems ?st) = [''101200012345'']" by code_simp
  from ts bs obtain e where items: "scannedItems ?st = [e]"
    and e: "timestamp e = 2" "barcode e = ''101200012345''"
    by (cases "scannedItems ?st") auto
  note inst = C3_seen_invariant [OF h1 h2 h3 refl]
  from inst have a: "processedBarcodes ?st = set (map barcode (scannedItems ?st))" by blast
  from inst items e have
    "''101200012345'' \<notin> processedBarcodes (handleDeleteItem 2 ?st)" by auto
  with h3 a ts show ?thesis by blast
qed

subsection \<open>Catalog load\<close>

lemma map_of_mapSet: "map_of (mapSet m k v) = (map_of m)(k \<mapsto> v)"
  by (induction m k v rule: mapSet.induct) (auto simp: fun_upd_twist)

lemma map_of_foldl_mapSet:
  "map_of (foldl (\<lambda>m (k, v). mapSet m k v) acc es) = map_of acc ++ map_of (rev es)"
proof (induction es arbitrary: acc)
  case Nil
  then show ?case by simp
next
  case (Cons e es)
  obtain k v where e: "e = (k, v)" by (cases e)
  have "map_of (foldl (\<lambda>m (k, v). mapSet m k v) acc (e # es)) =
      map_of (mapSet acc k v) ++ map_of (rev es)"
    by (simp add: e Cons.IH)
  also have "\<dots> = map_of acc ++ map_of (rev (e # es))"
    by (rule ext) (simp add: e map_of_mapSet map_add_def split: option.splits)
  finally show ?case .
qed

lemma map_of_newMap: "map_of (newMap es) = map_of (rev es)"
  by (simp add: newMap_def map_of_foldl_mapSet)

lemma dom_newMap: "dom (map_of (newMap es)) = fst ` set es"
  by (simp add: map_of_newMap dom_map_of_conv_image_fst)

lemma newMap_Some_in: "map_of (newMap es) k = Some v \<Longrightarrow> (k, v) \<in> set es"
  by (auto simp: map_of_newMap dest: map_of_SomeD)

lemma newMap_distinct: "distinct (map fst es) \<Longrightarrow> (k, v) \<in> set es \<Longrightarrow> map_of (newMap es) k = Some v"
  by (simp add: map_of_newMap distinct_rev rev_map [symmetric])

lemma handleExcelUpload_fails_iff:
  "(fst (handleExcelUpload json st) = Some MissingColumn) =
   (json = [] \<or> barkod (hd json) = None)"
  by (cases json) (auto simp: handleExcelUpload_def)

lemma handleExcelUpload_failure: "fst (handleExcelUpload json st) = Some MissingColumn \<Longrightarrow>
   snd (handleExcelUpload json st) = st"
  by (cases json) (auto simp: handleExcelUpload_def split: if_splits)

lemma handleExcelUpload_success:
  "fst (handleExcelUpload json st) \<noteq> Some MissingColumn \<Longrightarrow>
   handleExcelUpload json st =
     (None, st\<lparr>kohaData := json,
               kohaDataMap :=
                 map_of (newMap (map (\<lambda>item. (StringCell (barkod item), item)) json))\<rparr>)"
  by (cases json) (auto simp: handleExcelUpload_def split: if_splits)

text \<open>
  C9: the load fails with \<open>MissingColumn\<close> when there is no row or no row has the
  identifier column (exactly: when there is no row or the first row lacks the column),
  and a failed load leaves the session, catalog index included, as it was. Every other
  load succeeds and replaces rows and index: the new index is built from the new rows
  alone, its keys are exactly the \<open>String(barkod)\<close> of the rows, every entry is a row
  stored under its own key, and with pairwise different identifiers every row is found
  under its key.
\<close>

theorem C9_catalog_load:
  "((json = [] \<or> (\<forall>r \<in> set json. barkod r = None)) \<longrightarrow>
      fst (handleExcelUpload json st) = Some MissingColumn) \<and>
   (fst (handleExcelUpload json st) = Some MissingColumn) =
      (json = [] \<or> barkod (hd json) = None) \<and>
   (fst (handleExcelUpload json st) = Some MissingColumn \<longrightarrow>
      snd (handleExcelUpload json st) = st) \<and>
   (json \<noteq> [] \<and> barkod (hd json) \<noteq> None \<longrightarrow>
      handleExcelUpload json st =
        (None,
         st\<lparr>kohaData := json,
            kohaDataMap :=
              map_of (newMap (map (\<lambda>item. (StringCell (barkod item), item)) json))\<rparr>) \<and>
      kohaDataMap (snd (handleExcelUpload json st)) = kohaDataMap (newSession json) \<and>
      dom (kohaDataMap (snd (handleExcelUpload json st))) =
        (\<lambda>r. StringCell (barkod r)) ` set json \<and>
      (\<forall>k r. kohaDataMap (snd (handleExcelUpload json st)) k = Some r \<longrightarrow>
         r \<in> set json \<and> StringCell (barkod r) = k) \<and>
      (distinct (map (\<lambda>r. StringCell (barkod r)) json) \<longrightarrow>
         (\<forall>r \<in> set json.
            kohaDataMap (snd (handleExcelUpload json st)) (StringCell (barkod r)) = Some r)))"
proof (intro conjI impI)
  assume "json = [] \<or> (\<forall>r \<in> set json. barkod r = None)"
  then show "fst (handleExcelUpload json st) = Some MissingColumn"
    by (cases json) (auto simp: handleExcelUpload_fails_iff)
next
  show "(fst (handleExcelUpload json st) = Some MissingColumn) =
      (json = [] \<or> barkod (hd json) = None)"
    by (rule handleExcelUpload_fails_iff)
next
  assume "fst (handleExcelUpload json st) = Some MissingColumn"
  then show "snd (handleExcelUpload json st) = st" by (rule handleExcelUpload_failure)
next
  assume "json \<noteq> [] \<and> barkod (hd json) \<noteq> None"
  then have ok: "fst (handleExcelUpload json st) \<noteq> Some MissingColumn"
    by (simp add: handleExcelUpload_fails_iff)
  let ?es = "map (\<lambda>item. (StringCell (barkod item), item)) json"
  note s = handleExcelUpload_success [OF ok]
  show "handleExcelUpload json st =
      (None, st\<lparr>kohaData := json, kohaDataMap := map_of (newMap ?es)\<rparr>)"
    by (rule s)
  show "kohaDataMap (snd (handleExcelUpload json st)) = kohaDataMap (newSession json)"
    by (simp add: s newSession_def)
  have m: "kohaDataMap (snd (handleExcelUpload json st)) = map_of (newMap ?es)"
    by (simp add: s)
  show "dom (kohaDataMap (snd (handleExcelUpload json st))) =
      (\<lambda>r. StringCell (barkod r)) ` set json"
    unfolding m dom_newMap by (simp add: image_image)
  show "\<forall>k r. kohaDataMap (snd (handleExcelUpload json st)) k = Some r \<longrightarrow>
      r \<in> set json \<and> StringCell (barkod r) = k"
    unfolding m using newMap_Some_in [of ?es] by auto
  show "\<forall>r \<in> set json.
      kohaDataMap (snd (handleExcelUpload json st)) (StringCell (barkod r)) = Some r"
    if "distinct (map (\<lambda>r. StringCell (barkod r)) json)"
  proof
    fix r assume "r \<in> set json"
    then have "(StringCell (barkod r), r) \<in> set ?es" by auto
    moreover have "distinct (map fst ?es)" using that by (simp add: comp_def)
    ultimately show "kohaDataMap (snd (handleExcelUpload json st)) (StringCell (barkod r)) = Some r"
      unfolding m by (intro newMap_distinct)
  qed
qed

theorem C9_catalog_load_witness:
  "handleExcelUpload [] exampleSession = (Some MissingColumn, exampleSession) \<and>
   handleExcelUpload [foreignItem\<lparr>barkod := None\<rparr>, exampleItem] exampleSession =
     (Some MissingColumn, exampleSession) \<and>
   kohaDataMap exampleSession ''101200012345'' = Some exampleItem \<and>
   kohaData (newSession []) = [] \<and>
   fst (handleExcelUpload [foreignItem, exampleItem] (newSession [])) = None \<and>
   kohaData (snd (handleExcelUpload [foreignItem, exampleItem] (newSession []))) =
     [foreignItem, exampleItem] \<and>
   kohaDataMap (snd (handleExcelUpload [foreignItem, exampleItem] (newSession [])))
     ''999988887777'' = Some foreignItem \<and>
   kohaDataMap (snd (handleExcelUpload [foreignItem, exampleItem] (newSession [])))
     ''101200012345'' = Some exampleItem \<and>
   kohaDataMap (snd (handleExcelUpload [foreignItem] exampleSession)) ''101200012345'' = None"
proof -
  let ?rows = "[foreignItem, exampleItem]"
  let ?bad = "[foreignItem\<lparr>barkod := None\<rparr>, exampleItem]"
  have a: "handleExcelUpload [] exampleSession = (Some MissingColumn, exampleSession)"
    using C9_catalog_load [of "[]" exampleSession]
    by (cases "handleExcelUpload [] exampleSession") simp
  have "?bad = [] \<or> barkod (hd ?bad) = None" by simp
  then have "fst (handleExcelUpload ?bad exampleSession) = Some MissingColumn"
    using C9_catalog_load [of ?bad exampleSession] by blast
  then have b: "handleExcelUpload ?bad exampleSession = (Some MissingColumn, exampleSession)"
    using C9_catalog_load [of ?bad exampleSession]
    by (cases "handleExcelUpload ?bad exampleSession") simp
  have c: "kohaDataMap exampleSession ''101200012345'' = Some exampleItem" by code_simp
  have d: "kohaData (newSession []) = []" by (simp add: newSession_def)
  have kf: "StringCell (barkod foreignItem) = ''999988887777''" by code_simp
  have ke: "StringCell (barkod exampleItem) = ''101200012345''" by code_simp
  have first: "?rows \<noteq> [] \<and> barkod (hd ?rows) \<noteq> None" by (simp add: foreignItem_def)
  note inst = C9_catalog_load [of ?rows "newSession []", THEN conjunct2, THEN conjunct2,
      THEN conjunct2, rule_format, OF first]
  from inst have run: "handleExcelUpload ?rows (newSession []) =
      (None, (newSession [])\<lparr>kohaData := ?rows,
         kohaDataMap := map_of (newMap (map (\<lambda>item. (StringCell (barkod item), item)) ?rows))\<rparr>)"
    by blast
  have e: "fst (handleExcelUpload ?rows (newSession [])) = None" by (simp add: run)
  have f: "kohaData (snd (handleExcelUpload ?rows (newSession []))) = ?rows" by (simp add: run)
  from inst have all: "distinct (map (\<lambda>r. StringCell (barkod r)) ?rows) \<longrightarrow>
      (\<forall>r \<in> set ?rows.
         kohaDataMap (snd (handleExcelUpload ?rows (newSession []))) (StringCell (barkod r)) = Some r)"
    by blast
  have dist: "distinct (map (\<lambda>r. StringCell (barkod r)) ?rows)" by (simp add: kf ke)
  from all dist have g: "kohaDataMap (snd (handleExcelUpload ?rows (newSession [])))
      ''999988887777'' = Some foreignItem"
    and h: "kohaDataMap (snd (handleExcelUpload ?rows (newSession [])))
      ''101200012345'' = Some exampleItem"
    by (simp_all add: kf ke)
  have one: "[foreignItem] \<noteq> [] \<and> barkod (hd [foreignItem]) \<noteq> None"
    by (simp add: foreignItem_def)
  from C9_catalog_load [of "[foreignItem]" exampleSession, THEN conjunct2, THEN conjunct2,
      THEN conjunct2, rule_format, OF one]
  have dm: "dom (kohaDataMap (snd (handleExcelUpload [foreignItem] exampleSession))) =
      (\<lambda>r. StringCell (barkod r)) ` set [foreignItem]"
    by blast
  have "''101200012345'' \<notin>
      dom (kohaDataMap (snd (handleExcelUpload [foreignItem] exampleSession)))"
    unfolding dm by (simp add: kf)
  then have i:
    "kohaDataMap (snd (handleExcelUpload [foreignItem] exampleSession)) ''101200012345'' = None"
    by blast
  show ?thesis using a b c d e f g h i by blast
qed

subsection \<open>Rounding to doubles\<close>

lemma two_powi_pos: "0 < (2::rat) powi k"
  by (simp add: power_int_def)

lemma two_powi_Suc: "(2::rat) powi (k + 1) = 2 * 2 powi k"
  by (simp add: power_int_add)

lemma two_powi_pred: "(2::rat) powi (k - 1) = 2 powi k / 2"
  by (simp add: power_int_diff)

lemma quotient_bounds:
  assumes "0 < p" and "0 < q"
  shows "(2::rat) powi (bitlen p - bitlen q - 1) < of_int p / of_int q"
    and "of_int p / of_int q < (2::rat) powi (bitlen p - bitlen q + 1)"
proof -
  from bitlen_bounds [OF assms(1)] have p1: "2 ^ nat (bitlen p - 1) \<le> p" and p2: "p < 2 ^ nat (bitlen p)"
    by simp_all
  from bitlen_bounds [OF assms(2)] have q1: "2 ^ nat (bitlen q - 1) \<le> q" and q2: "q < 2 ^ nat (bitlen q)"
    by simp_all
  have bp: "1 \<le> bitlen p" using assms(1) bitlen_eq_zero_iff [of p] bitlen_nonneg [of p] by linarith
  have bq: "1 \<le> bitlen q" using assms(2) bitlen_eq_zero_iff [of q] bitlen_nonneg [of q] by linarith
  have P1: "(2::rat) powi (bitlen p - 1) \<le> of_int p"
  proof -
    have "(of_int (2 ^ nat (bitlen p - 1)) :: rat) \<le> of_int p" using p1 by (simp only: of_int_le_iff)
    then show ?thesis using bp by (simp add: power_int_def)
  qed
  have P2: "(of_int p :: rat) < 2 powi (bitlen p)"
  proof -
    have "(of_int p :: rat) < of_int (2 ^ nat (bitlen p))" using p2 by (simp only: of_int_less_iff)
    then show ?thesis using bp by (simp add: power_int_def)
  qed
  have Q1: "(2::rat) powi (bitlen q - 1) \<le> of_int q"
  proof -
    have "(of_int (2 ^ nat (bitlen q - 1)) :: rat) \<le> of_int q" using q1 by (simp only: of_int_le_iff)
    then show ?thesis using bq by (simp add: power_int_def)
  qed
  have Q2: "(of_int q :: rat) < 2 powi (bitlen q)"
  proof -
    have "(of_int q :: rat) < of_int (2 ^ nat (bitlen q))" using q2 by (simp only: of_int_less_iff)
    then show ?thesis using bq by (simp add: power_int_def)
  qed
  have qpos: "(0::rat) < of_int q" using assms(2) by simp
  have ppos: "(0::rat) < of_int p" using assms(1) by simp
  have "(2::rat) powi (bitlen p - bitlen q - 1) = 2 powi (bitlen p - 1) / 2 powi (bitlen q)"
    by (simp add: power_int_diff)
  also have "\<dots> \<le> of_int p / 2 powi (bitlen q)"
    using P1 two_powi_pos [of "bitlen q"] by (simp add: divide_right_mono)
  also have "\<dots> < of_int p / of_int q"
    using Q2 qpos ppos by (simp add: divide_strict_left_mono)
  finally show "(2::rat) powi (bitlen p - bitlen q - 1) < of_int p / of_int q" .
  have "of_int p / of_int q < (2::rat) powi (bitlen p) / of_int q"
    using P2 qpos by (simp add: divide_strict_right_mono)
  also have "\<dots> \<le> 2 powi (bitlen p) / 2 powi (bitlen q - 1)"
    using Q1 two_powi_pos [of "bitlen q - 1"] two_powi_pos [of "bitlen p"]
    by (intro frac_le) simp_all
  also have "\<dots> = 2 powi (bitlen p - bitlen q + 1)"
    by (simp add: power_int_diff power_int_add)
  finally show "of_int p / of_int q < (2::rat) powi (bitlen p - bitlen q + 1)" .
qed

lemma floorLog2_bounds:
  assumes "0 < x"
  shows "2 powi (floorLog2 x) \<le> x" and "x < 2 powi (floorLog2 x + 1)"
proof -
  obtain p q where pq: "quotient_of x = (p, q)" by (cases "quotient_of x")
  then have q: "0 < q" by (rule quotient_of_denom_pos)
  have x: "x = of_int p / of_int q" using pq by (rule quotient_of_div)
  have p: "0 < p"
    using assms q unfolding x by (simp add: zero_less_divide_iff)
  let ?k = "bitlen p - bitlen q"
  note b = quotient_bounds [OF p q, folded x]
  show "2 powi (floorLog2 x) \<le> x"
    using b(1) by (auto simp: floorLog2_def pq Let_def)
  show "x < 2 powi (floorLog2 x + 1)"
    using b(2) by (auto simp: floorLog2_def pq Let_def)
qed

lemma roundHalfEven_near: "\<bar>of_int (roundHalfEven m) - m\<bar> \<le> 1 / 2"
proof -
  define r where "r = m - of_int \<lfloor>m\<rfloor>"
  have r: "0 \<le> r" "r < 1" unfolding r_def by linarith+
  have m: "m = of_int \<lfloor>m\<rfloor> + r" by (simp add: r_def)
  have "roundHalfEven m = \<lfloor>m\<rfloor> \<and> r \<le> 1 / 2 \<or> roundHalfEven m = \<lfloor>m\<rfloor> + 1 \<and> 1 / 2 \<le> r"
    unfolding roundHalfEven_def Let_def r_def [symmetric] by auto
  then show ?thesis
  proof
    assume a: "roundHalfEven m = \<lfloor>m\<rfloor> \<and> r \<le> 1 / 2"
    then have "of_int (roundHalfEven m) - m = - r" using m by simp
    with a r show ?thesis by simp
  next
    assume a: "roundHalfEven m = \<lfloor>m\<rfloor> + 1 \<and> 1 / 2 \<le> r"
    then have "of_int (roundHalfEven m) - m = 1 - r" using m by simp
    with a r show ?thesis by simp
  qed
qed

lemma roundHalfEven_mono_int: "of_int k \<le> m \<Longrightarrow> k \<le> roundHalfEven m"
proof -
  assume "of_int k \<le> m"
  then have "k \<le> \<lfloor>m\<rfloor>" by (simp add: le_floor_iff)
  then show ?thesis by (auto simp: roundHalfEven_def Let_def)
qed

lemma roundHalfEven_int [simp]: "roundHalfEven (of_int k) = k"
  by (simp add: roundHalfEven_def)

lemma mantissa_bounds:
  assumes "0 < x"
  shows "2 ^ 52 \<le> x / 2 powi (floorLog2 x - 52)" and "x / 2 powi (floorLog2 x - 52) < 2 ^ 53"
proof -
  define c :: rat where "c = 2 ^ 52"
  define P :: rat where "P = 2 powi (floorLog2 x)"
  have c: "0 < c" by (simp add: c_def)
  have P: "0 < P" unfolding P_def by (rule two_powi_pos)
  have lo: "P \<le> x" unfolding P_def by (rule floorLog2_bounds(1) [OF assms])
  have hi: "x < 2 * P"
    using floorLog2_bounds(2) [OF assms] by (simp add: P_def two_powi_Suc)
  have e: "(2::rat) powi (floorLog2 x - 52) = P / c"
    by (simp add: power_int_diff P_def c_def)
  have m: "x / (P / c) = x / P * c" by simp
  have "1 \<le> x / P" using lo P by (simp add: le_divide_eq)
  then have "1 * c \<le> x / P * c" using c by (intro mult_right_mono) simp_all
  then show "2 ^ 52 \<le> x / 2 powi (floorLog2 x - 52)"
    unfolding e m by (simp add: c_def)
  have "x / P < 2" using hi P by (simp add: divide_less_eq)
  then have "x / P * c < 2 * c" using c by (intro mult_strict_right_mono) simp_all
  then show "x / 2 powi (floorLog2 x - 52) < 2 ^ 53"
    unfolding e m by (simp add: c_def)
qed

lemma toDouble_pos:
  assumes "0 < x"
  shows "0 < toDouble x"
proof -
  let ?m = "x / 2 powi (floorLog2 x - 52)"
  have "(of_int (2 ^ 52) :: rat) \<le> ?m" using mantissa_bounds(1) [OF assms] by simp
  then have "2 ^ 52 \<le> roundHalfEven ?m" by (rule roundHalfEven_mono_int)
  moreover have "(0::int) < 2 ^ 52" by simp
  ultimately have "0 < roundHalfEven ?m" by (rule less_le_trans [rotated])
  then have "(0::rat) < of_int (roundHalfEven ?m) * 2 powi (floorLog2 x - 52)"
    using two_powi_pos [of "floorLog2 x - 52"] by simp
  then show ?thesis using assms by (simp add: toDouble_def Let_def)
qed

lemma toDouble_minus: "toDouble (- x) = - toDouble x"
  by (simp add: toDouble_def Let_def)

lemma toDouble_pos_iff: "(0 < toDouble x) = (0 < x)"
proof (cases "0 < x")
  case True
  then show ?thesis by (simp add: toDouble_pos)
next
  case False
  show ?thesis
  proof (cases "x = 0")
    case True
    then show ?thesis by (simp add: toDouble_def)
  next
    case nz: False
    with False have "0 < - x" by simp
    then have "0 < toDouble (- x)" by (rule toDouble_pos)
    then have "toDouble x < 0" by (simp add: toDouble_minus)
    with False show ?thesis by simp
  qed
qed

lemma toDouble_error_pos:
  assumes "0 < x"
  shows "\<bar>toDouble x - x\<bar> \<le> x / 2 ^ 53"
proof -
  let ?e = "floorLog2 x - 52"
  let ?m = "x / 2 powi ?e"
  have pe: "(0::rat) < 2 powi ?e" by (rule two_powi_pos)
  have x: "x = ?m * 2 powi ?e" using pe by simp
  have "toDouble x - x = (of_int (roundHalfEven ?m) - ?m) * 2 powi ?e"
    using assms pe by (simp add: toDouble_def Let_def algebra_simps)
  then have "\<bar>toDouble x - x\<bar> = \<bar>of_int (roundHalfEven ?m) - ?m\<bar> * 2 powi ?e"
    using pe by (simp add: abs_mult)
  also have "\<dots> \<le> 1 / 2 * 2 powi ?e"
    using roundHalfEven_near [of ?m] pe by (intro mult_right_mono) simp_all
  also have "\<dots> \<le> ?m / 2 ^ 53 * 2 powi ?e"
  proof -
    have "(1::rat) / 2 \<le> ?m / 2 ^ 53"
      using mantissa_bounds(1) [OF assms] by (simp add: le_divide_eq)
    then show ?thesis using pe by (intro mult_right_mono) simp_all
  qed
  also have "\<dots> = x / 2 ^ 53" using pe by simp
  finally show ?thesis .
qed

lemma toDouble_error: "\<bar>toDouble x - x\<bar> \<le> \<bar>x\<bar> / 2 ^ 53"
proof (cases "0 < x")
  case True
  then show ?thesis using toDouble_error_pos [of x] by simp
next
  case False
  show ?thesis
  proof (cases "x = 0")
    case True
    then show ?thesis by (simp add: toDouble_def)
  next
    case nz: False
    with False have n: "0 < - x" by simp
    have "\<bar>toDouble x - x\<bar> = \<bar>toDouble (- x) - (- x)\<bar>"
      by (simp add: toDouble_minus abs_minus_commute)
    also have "\<dots> \<le> (- x) / 2 ^ 53" using n by (rule toDouble_error_pos)
    finally show ?thesis using n by simp
  qed
qed

subsection \<open>Scan throughput\<close>

lemma newest_first_Max:
  assumes "sorted_wrt (\<ge>) (ts :: int list)" and "ts \<noteq> []"
  shows "ts ! 0 = Max (set ts)"
proof -
  from assms(2) obtain t rest where ts: "ts = t # rest" by (cases ts) auto
  with assms(1) have "\<forall>y \<in> set rest. y \<le> t" by simp
  then have "Max (set (t # rest)) = t" by (intro Max_eqI) auto
  then show ?thesis by (simp add: ts)
qed

lemma newest_first_Min:
  assumes "sorted_wrt (\<ge>) (ts :: int list)" and "ts \<noteq> []"
  shows "ts ! (length ts - 1) = Min (set ts)"
proof -
  have l: "ts ! (length ts - 1) = last ts"
    using assms(2) by (simp add: last_conv_nth)
  have "sorted_wrt (\<le>) (rev ts)"
    using assms(1) by (simp add: sorted_wrt_rev)
  moreover from assms(2) obtain t rest where r: "rev ts = t # rest" by (cases "rev ts") auto
  ultimately have "\<forall>y \<in> set rest. t \<le> y" by simp
  then have "Min (set (t # rest)) = t" by (intro Min_eqI) auto
  moreover have "last ts = t" using r assms(2) by (simp add: last_rev [symmetric] del: last_rev)
  moreover have "set (t # rest) = set ts" using r by (metis set_rev)
  ultimately show ?thesis using l by simp
qed

lemma summaryData_None_iff:
  "(summaryData st = None) = (scannedItems st = [] \<and> kohaData st = [])"
  by (simp add: summaryData_def Let_def)

lemma summaryData_scanSpeed:
  "summaryData st = Some s \<Longrightarrow> scanSpeed s = computeScanSpeed (scannedItems st)"
  by (auto simp: summaryData_def Let_def split: if_splits)

text \<open>
  C4 as stated fails: with exactly one scan result in the ledger the reported throughput
  is the number 0, not the unbounded value.
\<close>

theorem C4_single_scan_counterexample:
  "length (scannedItems (run singleScan exampleSession)) = 1 \<and>
   map_option scanSpeed (summaryData (run singleScan exampleSession)) = Some (Rate 0) \<and>
   map_option scanSpeed (summaryData (run singleScan exampleSession)) \<noteq> Some Unbounded"
proof -
  have a: "length (scannedItems (run singleScan exampleSession)) = 1" by code_simp
  have b: "map_option scanSpeed (summaryData (run singleScan exampleSession)) = Some (Rate 0)"
    by code_simp
  show ?thesis unfolding b using a by simp
qed

text \<open>
  C4, amended: for a ledger kept most recent first, with at least two scan results and
  a positive time between the oldest and the newest time stamp, the reported throughput
  is \<open>round(totalScans / elapsedMinutes)\<close> as double arithmetic computes it: the elapsed
  milliseconds, their quotient by 60000 and the quotient of the number of scans by the
  minutes are each rounded to the nearest double before \<open>Math.round\<close>. With at least two
  results and no time elapsed it is the unbounded value; with one result or none it
  is 0.
\<close>

theorem C4_scan_throughput:
  assumes "summaryData st = Some s"
    and "items = scannedItems st"
    and "sorted_wrt (\<ge>) (map timestamp items)"
    and "length items < 2 ^ 32"
    and "\<forall>i \<in> set items. \<bar>timestamp i\<bar> \<le> 8640000000000000"
    and "elapsedMs = Max (set (map timestamp items)) - Min (set (map timestamp items))"
    and "elapsedMinutes = toDouble (toDouble (of_int elapsedMs) / 60000)"
  shows
    "(length items > 1 \<and> elapsedMs > 0 \<longrightarrow>
        scanSpeed s = Rate (round (toDouble (of_nat (length items) / elapsedMinutes)))) \<and>
     (length items > 1 \<and> \<not> elapsedMs > 0 \<longrightarrow> scanSpeed s = Unbounded) \<and>
     (length items \<le> 1 \<longrightarrow> scanSpeed s = Rate 0)"
proof -
  have speed: "scanSpeed s = computeScanSpeed items"
    using assms(1,2) by (simp add: summaryData_scanSpeed)
  have few: "scanSpeed s = Rate 0" if "length items \<le> 1"
    using that by (simp add: speed computeScanSpeed_def)
  have many: "timestamp (items ! 0) = Max (set (map timestamp items)) \<and>
      timestamp (items ! (length items - 1)) = Min (set (map timestamp items))"
    if "length items > 1"
  proof -
    from that have "length items \<noteq> 0" by linarith
    then have ne: "map timestamp items \<noteq> []" by simp
    have "map timestamp items ! 0 = timestamp (items ! 0)"
      using that by (cases items) auto
    moreover have "map timestamp items ! (length (map timestamp items) - 1) =
        timestamp (items ! (length items - 1))"
      using that by (simp add: nth_map)
    ultimately show ?thesis
      using newest_first_Max [OF assms(3) ne] newest_first_Min [OF assms(3) ne] by simp
  qed
  have dur: "toDouble (toDouble (of_int (timestamp (items ! 0) -
      timestamp (items ! (length items - 1)))) / (1000 * 60)) = elapsedMinutes"
    if "length items > 1"
    using many [OF that] by (simp add: assms(6,7))
  have sign: "(0 < elapsedMinutes) = (0 < elapsedMs)"
    unfolding assms(7) by (simp add: toDouble_pos_iff zero_less_divide_iff)
  have pos: "scanSpeed s = Rate (round (toDouble (of_nat (length items) / elapsedMinutes)))"
    if "length items > 1 \<and> elapsedMs > 0"
    using that dur sign by (simp add: speed computeScanSpeed_def Let_def)
  have zero: "scanSpeed s = Unbounded" if "length items > 1 \<and> \<not> elapsedMs > 0"
    using that dur sign by (simp add: speed computeScanSpeed_def Let_def)
  show ?thesis using few pos zero by blast
qed

theorem C4_scan_throughput_witness:
  "map timestamp (scannedItems (run threeScans exampleSession)) = [2600, 1800, 1000] \<and>
   map_option scanSpeed (summaryData (run threeScans exampleSession)) = Some (Rate 112) \<and>
   round ((3 :: rat) / (1600 / 60000)) = 113"
proof -
  let ?st = "run threeScans exampleSession"
  have ts: "map timestamp (scannedItems ?st) = [2600, 1800, 1000]" by code_simp
  have len: "length (scannedItems ?st) = 3"
    using arg_cong [OF ts, of length] by simp
  then have "scannedItems ?st \<noteq> []" by auto
  then obtain s where s: "summaryData ?st = Some s"
    using summaryData_None_iff [of ?st] by (cases "summaryData ?st") simp_all
  have sorted: "sorted_wrt (\<ge>) (map timestamp (scannedItems ?st))"
    unfolding ts by simp
  have small: "length (scannedItems ?st) < 2 ^ 32" unfolding len by simp
  have range: "\<forall>i \<in> set (scannedItems ?st). \<bar>timestamp i\<bar> \<le> 8640000000000000"
  proof
    fix i assume "i \<in> set (scannedItems ?st)"
    then have "timestamp i \<in> set (map timestamp (scannedItems ?st))" by simp
    then show "\<bar>timestamp i\<bar> \<le> 8640000000000000" unfolding ts by auto
  qed
  have el: "Max (set (map timestamp (scannedItems ?st)))
      - Min (set (map timestamp (scannedItems ?st))) = 1600"
    unfolding ts by simp
  have r: "round (toDouble (of_nat 3 / toDouble (toDouble (of_int 1600) / 60000))) = 112"
    by code_simp
  have exact: "round ((3 :: rat) / (1600 / 60000)) = 113" by code_simp
  from C4_scan_throughput [OF s refl sorted small range refl refl]
  have "scanSpeed s = Rate (round (toDouble (of_nat 3 / toDouble (toDouble (of_int 1600) / 60000))))"
    unfolding el len by simp
  then have "scanSpeed s = Rate 112" by (simp only: r)
  then show ?thesis using ts s exact by simp
qed

subsection \<open>Summary counts\<close>

lemma set_foldl_newSet:
  "set (foldl (\<lambda>s x. if x \<in> set s then s else s @ [x]) acc xs) = set acc \<union> set xs"
  by (induction xs arbitrary: acc) auto

lemma distinct_foldl_newSet:
  "distinct acc \<Longrightarrow> distinct (foldl (\<lambda>s x. if x \<in> set s then s else s @ [x]) acc xs)"
  by (induction xs arbitrary: acc) auto

lemma set_newSet: "set (newSet xs) = set xs"
  by (simp add: newSet_def set_foldl_newSet)

lemma distinct_newSet: "distinct (newSet xs)"
  by (simp add: newSet_def distinct_foldl_newSet)

lemma keys_mapSet: "set (map fst (mapSet m k v)) = insert k (set (map fst m))"
  by (induction m k v rule: mapSet.induct) auto

lemma distinct_mapSet: "distinct (map fst m) \<Longrightarrow> distinct (map fst (mapSet m k v))"
proof (induction m k v rule: mapSet.induct)
  case (1 k v)
  then show ?case by simp
next
  case (2 k' v' m k v)
  then show ?case using keys_mapSet [of m k v] by auto
qed

lemma distinct_foldl_mapSet:
  "distinct (map fst acc) \<Longrightarrow> distinct (map fst (foldl (\<lambda>m (k, v). mapSet m k v) acc es))"
  by (induction es arbitrary: acc) (auto simp: distinct_mapSet split: prod.splits)

lemma distinct_newMap: "distinct (map fst (newMap es))"
  by (simp add: newMap_def distinct_foldl_mapSet)

lemma newMap_entry_iff: "((k, v) \<in> set (newMap es)) = (map_of (rev es) k = Some v)"
  using distinct_newMap [of es] map_of_newMap [of es]
  by (metis map_of_SomeD map_of_is_SomeI)

lemma count_values:
  assumes "distinct (map fst l)"
  shows "length (filter P (map snd l)) = card {k. \<exists>v. map_of l k = Some v \<and> P v}"
proof -
  have dl: "distinct l" using assms by (rule distinct_map [THEN iffD1, THEN conjunct1])
  have inj: "inj_on fst (set (filter (P \<circ> snd) l))"
    using assms by (auto simp: distinct_map inj_on_def)
  have "length (filter P (map snd l)) = length (filter (P \<circ> snd) l)"
    by (simp add: filter_map)
  also have "\<dots> = card (set (filter (P \<circ> snd) l))"
    using dl by (intro distinct_card [symmetric]) simp
  also have "\<dots> = card (fst ` set (filter (P \<circ> snd) l))"
    using inj by (simp add: card_image)
  also have "fst ` set (filter (P \<circ> snd) l) = {k. \<exists>v. map_of l k = Some v \<and> P v}"
    using assms by (auto simp: image_iff dest: map_of_SomeD)
  finally show ?thesis .
qed

lemma count_distinct: "distinct K \<Longrightarrow> length (filter Q K) = card {b \<in> set K. Q b}"
proof -
  assume "distinct K"
  then have "length (filter Q K) = card (set (filter Q K))"
    by (intro distinct_card [symmetric]) simp
  then show ?thesis by simp
qed

lemma map_of_keyed: "map_of (map (\<lambda>i. (f i, i)) ys) k = find (\<lambda>i. f i = k) ys"
  by (induction ys) auto

lemma find_filter: "find P (filter Q ys) = find (\<lambda>x. Q x \<and> P x) ys"
  by (induction ys) auto

lemma oldest_active:
  "map_of (rev (map (\<lambda>i. (barcode i, i)) (filter hasActiveData items))) b =
   find (\<lambda>i. hasActiveData i \<and> barcode i = b) (rev items)"
  by (simp add: rev_map rev_filter map_of_keyed find_filter)

lemma find_Some_ex: "(\<exists>x. find P xs = Some x) = (\<exists>x \<in> set xs. P x)"
  by (induction xs) auto

lemma unique_barcodes:
  "barcode ` set (uniqueActiveScannedItems items) = barcode ` {i \<in> set items. hasActiveData i}"
proof -
  let ?es = "map (\<lambda>i. (barcode i, i)) (filter hasActiveData items)"
  have "barcode ` set (uniqueActiveScannedItems items) = fst ` set (newMap ?es)"
  proof -
    have "(k, v) \<in> set (newMap ?es) \<Longrightarrow> barcode v = k" for k v
      by (auto simp: newMap_entry_iff dest!: map_of_SomeD)
    then show ?thesis
      by (force simp: uniqueActiveScannedItems_def image_iff)
  qed
  also have "\<dots> = dom (map_of (newMap ?es))"
    by (simp add: dom_map_of_conv_image_fst)
  also have "\<dots> = fst ` set ?es"
    by (rule dom_newMap)
  also have "\<dots> = barcode ` {i \<in> set items. hasActiveData i}"
    by (auto simp: image_iff)
  finally show ?thesis .
qed

lemma length_unique:
  "length (uniqueActiveScannedItems items) = card (barcode ` {i \<in> set items. hasActiveData i})"
proof -
  let ?es = "map (\<lambda>i. (barcode i, i)) (filter hasActiveData items)"
  have "length (uniqueActiveScannedItems items) = length (map fst (newMap ?es))"
    by (simp add: uniqueActiveScannedItems_def)
  also have "\<dots> = card (set (map fst (newMap ?es)))"
    using distinct_newMap [of ?es] by (simp only: distinct_card)
  also have "set (map fst (newMap ?es)) = dom (map_of (newMap ?es))"
    by (simp add: dom_map_of_conv_image_fst)
  also have "\<dots> = barcode ` {i \<in> set items. hasActiveData i}"
    unfolding dom_newMap by (auto simp: image_iff)
  finally show ?thesis .
qed

lemma valid_unique:
  "length (filter isValid (uniqueActiveScannedItems items)) =
   card {b. \<exists>i. find (\<lambda>i. hasActiveData i \<and> barcode i = b) (rev items) = Some i \<and> isValid i}"
  unfolding uniqueActiveScannedItems_def
  by (simp only: count_values [OF distinct_newMap] map_of_newMap oldest_active)

text \<open>
  What \<open>summaryData\<close> counts: the missing count is the number of distinct identifiers of
  in-collection catalog records that are not the identifier of any scan result
  carrying an in-collection record, whether that result is duplicate-warned or not; the
  valid and invalid counts together number the distinct identifiers of the scan
  results carrying an in-collection record, and an identifier is valid when the oldest
  such result for it is.
\<close>

lemma summaryData_counts:
  assumes "summaryData st = Some s"
    and "missing = {b. (\<exists>r \<in> set (kohaData st). isActive r \<and> StringCell (barkod r) = b) \<and>
                      (\<forall>i \<in> set (scannedItems st). hasActiveData i \<longrightarrow> barcode i \<noteq> b)}"
  shows
    "notScannedCount s = card missing \<and>
     (\<forall>r \<in> set (kohaData st). StringCell (barkod r) \<in> missing \<longrightarrow>
        (\<exists>r' \<in> set (kohaData st).
           StringCell (barkod r') = StringCell (barkod r) \<and>
           StringCell (materyal_statusu_kodu r') = ''0'')) \<and>
     valid s + invalid s = card (barcode ` {i \<in> set (scannedItems st). hasActiveData i}) \<and>
     valid s =
       card {b. \<exists>i. find (\<lambda>i. hasActiveData i \<and> barcode i = b) (rev (scannedItems st)) = Some i \<and>
                     isValid i}"
proof -
  let ?items = "scannedItems st"
  let ?keys = "map (\<lambda>item. StringCell (barkod item)) (filter isActive (kohaData st))"
  let ?unique = "uniqueActiveScannedItems ?items"
  from assms(1) have s: "s =
      \<lparr>totalScanned = length ?items,
       valid = length (filter isValid ?unique),
       invalid = length ?unique - length (filter isValid ?unique),
       notScannedCount =
         length (filter (\<lambda>b. b \<notin> set (newSet (map barcode ?unique))) (newSet ?keys)),
       scanSpeed = computeScanSpeed ?items\<rparr>"
    by (auto simp: summaryData_def Let_def split: if_splits)
  have scanned: "set (newSet (map barcode ?unique)) = barcode ` {i \<in> set ?items. hasActiveData i}"
    by (simp only: set_newSet set_map unique_barcodes)
  have "notScannedCount s =
      card {b \<in> set (newSet ?keys). b \<notin> barcode ` {i \<in> set ?items. hasActiveData i}}"
    by (subst s) (simp only: summary.simps count_distinct [OF distinct_newSet] scanned)
  also have "{b \<in> set (newSet ?keys). b \<notin> barcode ` {i \<in> set ?items. hasActiveData i}} = missing"
    unfolding assms(2) set_newSet by (auto simp: image_iff)
  finally have missing: "notScannedCount s = card missing" .
  have active: "\<forall>r \<in> set (kohaData st). StringCell (barkod r) \<in> missing \<longrightarrow>
      (\<exists>r' \<in> set (kohaData st).
         StringCell (barkod r') = StringCell (barkod r) \<and>
         StringCell (materyal_statusu_kodu r') = ''0'')"
    unfolding assms(2) by (auto simp: isActive_def)
  have "length (filter isValid ?unique) \<le> length ?unique" by simp
  then have "valid s + invalid s = length ?unique" by (subst (1 2) s) simp
  then have total: "valid s + invalid s = card (barcode ` {i \<in> set ?items. hasActiveData i})"
    by (simp only: length_unique)
  have val: "valid s =
      card {b. \<exists>i. find (\<lambda>i. hasActiveData i \<and> barcode i = b) (rev ?items) = Some i \<and> isValid i}"
    by (subst s) (simp only: summary.simps valid_unique)
  show ?thesis using missing active total val by blast
qed

text \<open>
  C8 fails in \<open>summaryData\<close>: after an in-collection item is scanned twice and the first
  result is deleted, the ledger holds no result for it that is not duplicate-warned. The
  item is then one of the catalog records the claim counts as missing, and the missing
  report lists it, yet the missing count of the summary is 0.
\<close>

theorem C8_missing_count_diverges:
  "map barcode (scannedItems (run rescanThenDeleteFirst exampleSession)) = [''101200012345''] \<and>
   map warnings (scannedItems (run rescanThenDeleteFirst exampleSession)) = [[duplicate]] \<and>
   missingItems (run rescanThenDeleteFirst exampleSession) = [exampleItem] \<and>
   map_option notScannedCount (summaryData (run rescanThenDeleteFirst exampleSession)) = Some 0"
proof -
  have a: "map barcode (scannedItems (run rescanThenDeleteFirst exampleSession)) =
      [''101200012345'']" by code_simp
  have b: "map warnings (scannedItems (run rescanThenDeleteFirst exampleSession)) =
      [[duplicate]]" by code_simp
  have c: "missingItems (run rescanThenDeleteFirst exampleSession) = [exampleItem]"
    by code_simp
  have d: "map_option notScannedCount (summaryData (run rescanThenDeleteFirst exampleSession)) =
      Some 0" by code_simp
  show ?thesis using a b c d by blast
qed

subsection \<open>ISBN inputs\<close>

text \<open>
  In the component an ISBN leaves the session as it is: \<open>processBarcode_isbn\<close>. So does
  every later scan of it, and the ledger never shows it.
\<close>

lemma processBarcode_isbn_frame:
  assumes "fst (processBarcode sc now raw st) = isbn"
  shows "snd (processBarcode sc now raw st) = st"
proof (cases "trim raw = [] \<or> selectedLibrary sc = []")
  case True
  then show ?thesis by (simp add: processBarcode_ignored)
next
  case False
  show ?thesis
  proof (cases "isIsbn (trim raw)")
    case True
    with False show ?thesis by (simp add: processBarcode_isbn)
  next
    case False
    with \<open>\<not> (trim raw = [] \<or> selectedLibrary sc = [])\<close> assms show ?thesis
      by (auto simp: processBarcode_def Let_def split: if_splits)
  qed
qed

lemma processBarcode_isbn_repeat:
  assumes "fst (processBarcode sc now raw st) = isbn"
  shows "run (replicate n (Scan sc now raw)) st = st"
proof (induction n)
  case 0
  then show ?case by (simp add: run_def)
next
  case (Suc n)
  have "run (replicate (Suc n) (Scan sc now raw)) st =
      run (replicate n (Scan sc now raw)) (snd (processBarcode sc now raw st))"
    by (simp add: run_def)
  then show ?case using Suc processBarcode_isbn_frame [OF assms] by simp
qed

lemma worker_duplicate:
  assumes "trim raw \<noteq> []" and "lib \<noteq> []" and "\<not> isIsbn (trim raw)"
    and "nb = normalizedBarcode (normalize (libraryPrefix lib) (trim raw))"
    and "nb \<in> workerProcessedBarcodes w"
  shows "processSingleBarcode now raw lib loc w =
           (Some \<lparr>barcode = nb, isValid = False, warnings = [duplicate],
                  data = workerKohaDataMap w nb, timestamp = now\<rparr>, w)"
  using assms
  by (simp add: processSingleBarcode_def processBarcodeLogic_def Let_def insert_absorb)

lemma worker_structural:
  assumes "trim raw \<noteq> []" and "lib \<noteq> []" and "\<not> isIsbn (trim raw)"
    and "nz = normalize (libraryPrefix lib) (trim raw)"
    and "normalizedBarcode nz \<notin> workerProcessedBarcodes w"
    and "length (normalizedBarcode nz) = 12"
    and "\<not> startsWith (normalizedBarcode nz) (libraryPrefix lib)"
  shows "processBarcodeLogic w now raw lib loc =
           Some \<lparr>barcode = originalBarcode nz, isValid = False,
                 warnings =
                   [structuralWarning
                      \<lparr>selectedLibrary = lib, selectedLocation = loc,
                       combinedLibraries = workerCombinedLibraries w\<rparr> (normalizedBarcode nz)],
                 data = workerKohaDataMap w (normalizedBarcode nz), timestamp = now\<rparr>"
  using assms by (simp add: processBarcodeLogic_def Let_def)

lemma worker_isbn:
  assumes "trim raw \<noteq> []" and "lib \<noteq> []" and "isIsbn (trim raw)"
  shows "processSingleBarcode now raw lib loc w =
           (Some \<lparr>barcode = trim raw, isValid = False, warnings = [isbnDetected],
                  data = None, timestamp = now\<rparr>,
            w\<lparr>workerProcessedBarcodes := insert (trim raw) (workerProcessedBarcodes w)\<rparr>)"
  using assms by (simp add: processSingleBarcode_def processBarcodeLogic_def Let_def)

text \<open>
  C7 fails in the worker: the component's \<open>processBarcode\<close> classifies the ISBN
  9780134190440 as \<open>isbn\<close> and returns the session unchanged, but the worker's
  \<open>processSingleBarcode\<close> adds the ISBN to \<open>processedBarcodes\<close>. Under library code 8780
  (prefix 9780) the digits 134190440 complete to the same string, and the worker then
  answers this never scanned item with \<open>duplicate\<close> instead of
  \<open>autoCompletedNotFound\<close>.
\<close>

theorem C7_worker_isbn_enters_seen:
  "isIsbn ''9780134190440'' \<and>
   processBarcode exampleScope 1 ''9780134190440'' exampleSession = (isbn, exampleSession) \<and>
   map_option warnings (fst (processSingleBarcode 1 ''9780134190440'' ''12'' ''YB'' exampleWorker))
     = Some [isbnDetected] \<and>
   workerProcessedBarcodes (snd (processSingleBarcode 1 ''9780134190440'' ''12'' ''YB'' exampleWorker))
     = {''9780134190440''} \<and>
   map_option warnings (fst (processSingleBarcode 2 ''134190440'' ''8780'' ''YB'' exampleWorker))
     = Some [autoCompletedNotFound] \<and>
   map_option warnings
     (fst (processSingleBarcode 2 ''134190440'' ''8780'' ''YB''
            (snd (processSingleBarcode 1 ''9780134190440'' ''8780'' ''YB'' exampleWorker))))
     = Some [duplicate]"
proof -
  have i: "isIsbn ''9780134190440''" by code_simp
  have t: "trim ''9780134190440'' = ''9780134190440''" by code_simp
  have l: "selectedLibrary exampleScope \<noteq> []" by code_simp
  have a: "processBarcode exampleScope 1 ''9780134190440'' exampleSession = (isbn, exampleSession)"
    using i t l by (intro processBarcode_isbn) simp_all
  have b: "map_option warnings
      (fst (processSingleBarcode 1 ''9780134190440'' ''12'' ''YB'' exampleWorker)) =
      Some [isbnDetected]" by code_simp
  have c: "workerProcessedBarcodes
      (snd (processSingleBarcode 1 ''9780134190440'' ''12'' ''YB'' exampleWorker)) =
      {''9780134190440''}" by code_simp
  have d: "map_option warnings
      (fst (processSingleBarcode 2 ''134190440'' ''8780'' ''YB'' exampleWorker)) =
      Some [autoCompletedNotFound]" by code_simp
  have e: "map_option warnings
     (fst (processSingleBarcode 2 ''134190440'' ''8780'' ''YB''
            (snd (processSingleBarcode 1 ''9780134190440'' ''8780'' ''YB'' exampleWorker)))) =
     Some [duplicate]" by code_simp
  show ?thesis using i a b c d e by blast
qed

end
